theory Spec2Isabelle
  imports Complex_Main "HOL-Library.Product_Lexorder"
begin

section \<open>Python values used by app.py\<close>

text \<open>
  A Python \<open>str\<close> is a sequence of Unicode code points, and \<open>len\<close>, slicing and
  \<open>split\<close> count code points. It is modelled as the list of its code points; \<open>ascii\<close>
  turns an ASCII literal of the source into that list.
\<close>

type_synonym str = "nat list"

definition ascii :: "string \<Rightarrow> str" where
  "ascii s = map of_char s"

text \<open>
  Exceptions are values. \<open>NotModelled\<close> is not a Python exception: it marks the inputs
  on which a library routine depends on tables that are not part of this development
  (Unicode normalisation, IP address syntax, Unicode digit classes, pandas dtype
  inference). Nothing is claimed about the program on those inputs.
\<close>

datatype py_error =
    ValueError | KeyError | TypeError | IndexError | AttributeError
  | JSONDecodeError | RequestException | IntCastingNaNError | NotModelled

subsection \<open>String methods\<close>

definition startswith :: "str \<Rightarrow> str \<Rightarrow> bool" where
  "startswith s p = (take (length p) s = p)"

fun find_sub :: "str \<Rightarrow> str \<Rightarrow> nat option" where
  "find_sub sep [] = (if sep = [] then Some 0 else None)"
| "find_sub sep (x # xs) =
     (if startswith (x # xs) sep then Some 0 else map_option Suc (find_sub sep xs))"

text \<open>\<open>s.split(sep)\<close>: cut at the non-overlapping occurrences of \<open>sep\<close>, left to right.
  Python raises ValueError for an empty separator.\<close>

function split_at :: "str \<Rightarrow> str \<Rightarrow> str list" where
  "split_at sep s =
     (if sep = [] then [s]
      else (case find_sub sep s of
              None \<Rightarrow> [s]
            | Some i \<Rightarrow> take i s # split_at sep (drop (i + length sep) s)))"
  by pat_completeness auto

termination split_at
proof (relation "measure (\<lambda>(sep, s). length s)")
  show "wf (measure (\<lambda>(sep, s). length s))" by simp
next
  fix sep s :: str and i
  assume ne: "sep \<noteq> []" and found: "find_sub sep s = Some i"
  have bound: "find_sub sep t = Some j \<Longrightarrow> j + length sep \<le> length t" for t j
  proof (induction t arbitrary: j)
    case Nil
    then show ?case by (simp split: if_splits)
  next
    case (Cons x xs)
    show ?case
    proof (cases "startswith (x # xs) sep")
      case True
      then have "length sep \<le> length (x # xs)"
        unfolding startswith_def by (metis length_take min.cobounded1)
      with True Cons.prems show ?thesis by simp
    next
      case False
      with Cons.prems obtain k where "find_sub sep xs = Some k" "j = Suc k" by auto
      with Cons.IH show ?thesis by fastforce
    qed
  qed
  have "i + length sep \<le> length s"
    using found by (rule bound)
  moreover have "0 < length sep"
    using ne by simp
  ultimately have "length s - (i + length sep) < length s"
    by arith
  then show "((sep, drop (i + length sep) s), (sep, s)) \<in> measure (\<lambda>(sep, s). length s)"
    by simp
qed

declare split_at.simps [simp del]

definition split_str :: "str \<Rightarrow> str \<Rightarrow> py_error + str list" where
  "split_str s sep = (if sep = [] then Inl ValueError else Inr (split_at sep s))"

text \<open>\<open>xs[i]\<close> for a non-negative index.\<close>

definition getitem :: "'a list \<Rightarrow> nat \<Rightarrow> py_error + 'a" where
  "getitem xs i = (if i < length xs then Inr (xs ! i) else Inl IndexError)"

fun index_of :: "nat \<Rightarrow> str \<Rightarrow> nat option" where
  "index_of c [] = None"
| "index_of c (x # xs) = (if x = c then Some 0 else map_option Suc (index_of c xs))"

text \<open>\<open>s.find(c, start)\<close> and \<open>s.rfind(c)\<close>, with \<open>None\<close> for Python's \<open>-1\<close>.\<close>

definition find_from :: "nat \<Rightarrow> str \<Rightarrow> nat \<Rightarrow> nat option" where
  "find_from c s start = map_option (\<lambda>i. i + start) (index_of c (drop start s))"

definition rfind :: "nat \<Rightarrow> str \<Rightarrow> nat option" where
  "rfind c s = map_option (\<lambda>i. length s - 1 - i) (index_of c (rev s))"

text \<open>\<open>s.split(c, 1)\<close> for a character that occurs in \<open>s\<close>; the pair \<open>(s, '')\<close> otherwise,
  which is what the callers below leave in place when \<open>c\<close> is not in \<open>s\<close>.\<close>

definition cut_at :: "nat \<Rightarrow> str \<Rightarrow> str \<times> str" where
  "cut_at c s = (case index_of c s of None \<Rightarrow> (s, []) | Some i \<Rightarrow> (take i s, drop (Suc i) s))"

definition is_upper :: "nat \<Rightarrow> bool" where
  "is_upper c = (of_char CHR ''A'' \<le> c \<and> c \<le> of_char CHR ''Z'')"

definition is_lower :: "nat \<Rightarrow> bool" where
  "is_lower c = (of_char CHR ''a'' \<le> c \<and> c \<le> of_char CHR ''z'')"

definition is_digit :: "nat \<Rightarrow> bool" where
  "is_digit c = (of_char CHR ''0'' \<le> c \<and> c \<le> of_char CHR ''9'')"

definition lower :: "str \<Rightarrow> str" where
  \<comment> \<open>\<open>str.lower\<close> on ASCII text, the only text it is applied to\<close>
  "lower s = map (\<lambda>c. if is_upper c then c + 32 else c) s"

section \<open>urllib.parse\<close>

text \<open>
  \<open>urlparse\<close> and \<open>unquote\<close> are the standard library's (CPython 3.11), followed
  statement by statement. Two checks of \<open>urlsplit\<close> are outside this development:
  \<open>_check_bracketed_host\<close> (IP address syntax of a bracketed host) and the NFKC test of
  \<open>_checknetloc\<close> on a non-ASCII network location. Both either return or raise
  ValueError; the model answers \<open>NotModelled\<close> where they would run.
\<close>

record parse_result =
  scheme :: str
  netloc :: str
  path :: str
  params :: str
  query :: str
  fragment :: str

definition scheme_chars :: str where
  "scheme_chars = ascii ''abcdefghijklmnopqrstuvwxyzABCDEFGHIJKLMNOPQRSTUVWXYZ0123456789+-.''"

definition uses_params :: "str list" where
  "uses_params = map ascii ['''', ''ftp'', ''hdl'', ''prospero'', ''http'', ''imap'',
     ''https'', ''shttp'', ''rtsp'', ''rtsps'', ''rtspu'', ''sip'', ''sips'', ''mms'',
     ''sftp'', ''tel'']"

definition split_scheme :: "str \<Rightarrow> str \<times> str" where
  \<comment> \<open>the scheme, when the text before the first colon is one, and the rest\<close>
  "split_scheme url =
     (case index_of (of_char CHR '':'') url of
        None \<Rightarrow> ([], url)
      | Some i \<Rightarrow>
          (case url of
             [] \<Rightarrow> ([], url)
           | c # _ \<Rightarrow>
               if 0 < i \<and> (is_upper c \<or> is_lower c)
                  \<and> list_all (\<lambda>d. d \<in> set scheme_chars) (take i url)
               then (lower (take i url), drop (Suc i) url)
               else ([], url)))"

definition splitnetloc :: "str \<Rightarrow> nat \<Rightarrow> str \<times> str" where
  "splitnetloc url start =
     (let delim = fold (\<lambda>c d. case find_from (of_char c) url start of
                                 None \<Rightarrow> d | Some w \<Rightarrow> min d w)
                       ''/?#'' (length url)
      in (drop start (take delim url), drop delim url))"

definition urlsplit :: "str \<Rightarrow> py_error + parse_result" where
  "urlsplit url0 =
     (let url1 = dropWhile (\<lambda>c. c \<le> 32) url0;
          url2 = filter (\<lambda>c. c \<notin> set (ascii [CHR 0x09, CHR 0x0D, CHR 0x0A])) url1;
          (sch, url3) = split_scheme url2;
          (loc, url4) = (if take 2 url3 = ascii ''//'' then splitnetloc url3 2 else ([], url3));
          lb = of_char CHR ''[''; rb = of_char CHR '']''
      in if (lb \<in> set loc \<and> rb \<notin> set loc) \<or> (rb \<in> set loc \<and> lb \<notin> set loc)
         then Inl ValueError
         else if lb \<in> set loc \<and> rb \<in> set loc then Inl NotModelled
         else if \<not> list_all (\<lambda>c. c < 128) loc then Inl NotModelled
         else
           (let (url5, frag) = cut_at (of_char CHR ''#'') url4;
                (url6, qry) = cut_at (of_char CHR ''?'') url5
            in Inr \<lparr>scheme = sch, netloc = loc, path = url6, params = [],
                     query = qry, fragment = frag\<rparr>))"

definition splitparams :: "str \<Rightarrow> str \<times> str" where
  "splitparams url =
     (let semi = of_char CHR '';'' in
      case rfind (of_char CHR ''/'') url of
        Some k \<Rightarrow>
          (case find_from semi url k of
             None \<Rightarrow> (url, [])
           | Some i \<Rightarrow> (take i url, drop (Suc i) url))
      | None \<Rightarrow> cut_at semi url)"

definition urlparse :: "str \<Rightarrow> py_error + parse_result" where
  "urlparse url =
     (case urlsplit url of
        Inl e \<Rightarrow> Inl e
      | Inr r \<Rightarrow>
          if scheme r \<in> set uses_params \<and> of_char CHR '';'' \<in> set (path r)
          then (let (p, ps) = splitparams (path r) in Inr (r\<lparr>path := p, params := ps\<rparr>))
          else Inr r)"

subsection \<open>unquote\<close>

definition hexval :: "nat \<Rightarrow> nat option" where
  "hexval c =
     (if is_digit c then Some (c - of_char CHR ''0'')
      else if of_char CHR ''A'' \<le> c \<and> c \<le> of_char CHR ''F'' then Some (c - of_char CHR ''A'' + 10)
      else if of_char CHR ''a'' \<le> c \<and> c \<le> of_char CHR ''f'' then Some (c - of_char CHR ''a'' + 10)
      else None)"

text \<open>\<open>unquote_to_bytes\<close> on ASCII text: each \<open>%\<close> followed by two hexadecimal digits
  becomes that byte, any other \<open>%\<close> stays.\<close>

fun unquote_to_bytes :: "nat list \<Rightarrow> nat list" where
  "unquote_to_bytes (p # a # b # rest) =
     (if p = of_char CHR ''%'' then
        (case (hexval a, hexval b) of
           (Some h, Some l) \<Rightarrow> (16 * h + l) # unquote_to_bytes rest
         | _ \<Rightarrow> p # unquote_to_bytes (a # b # rest))
      else p # unquote_to_bytes (a # b # rest))"
| "unquote_to_bytes s = s"

definition is_cont :: "nat \<Rightarrow> bool" where
  "is_cont b = (0x80 \<le> b \<and> b < 0xC0)"

definition second_ok :: "nat \<Rightarrow> nat \<Rightarrow> bool" where
  \<comment> \<open>the second byte allowed after the lead byte \<open>b\<close> of a 3- or 4-byte sequence\<close>
  "second_ok b c =
     (is_cont c \<and> (b = 0xE0 \<longrightarrow> 0xA0 \<le> c) \<and> (b = 0xED \<longrightarrow> c < 0xA0)
      \<and> (b = 0xF0 \<longrightarrow> 0x90 \<le> c) \<and> (b = 0xF4 \<longrightarrow> c < 0x90))"

definition replacement :: nat where
  "replacement = 0xFFFD"

text \<open>\<open>bytes.decode('utf-8', 'replace')\<close>: every maximal ill-formed prefix of a sequence
  becomes one U+FFFD.\<close>

fun utf8_replace :: "nat list \<Rightarrow> nat list" where
  "utf8_replace [] = []"
| "utf8_replace (b # bs) =
     (if b < 0x80 then b # utf8_replace bs
      else if b < 0xC2 then replacement # utf8_replace bs
      else if b < 0xE0 then
        (case bs of
           [] \<Rightarrow> [replacement]
         | c # cs \<Rightarrow>
             if is_cont c then ((b - 0xC0) * 64 + (c - 0x80)) # utf8_replace cs
             else replacement # utf8_replace bs)
      else if b < 0xF0 then
        (case bs of
           [] \<Rightarrow> [replacement]
         | c # cs \<Rightarrow>
             if \<not> second_ok b c then replacement # utf8_replace bs
             else
               (case cs of
                  [] \<Rightarrow> [replacement]
                | d # ds \<Rightarrow>
                    if is_cont d
                    then ((b - 0xE0) * 4096 + (c - 0x80) * 64 + (d - 0x80)) # utf8_replace ds
                    else replacement # utf8_replace cs))
      else if b < 0xF5 then
        (case bs of
           [] \<Rightarrow> [replacement]
         | c # cs \<Rightarrow>
             if \<not> second_ok b c then replacement # utf8_replace bs
             else
               (case cs of
                  [] \<Rightarrow> [replacement]
                | d # ds \<Rightarrow>
                    if \<not> is_cont d then replacement # utf8_replace cs
                    else
                      (case ds of
                         [] \<Rightarrow> [replacement]
                       | e # es \<Rightarrow>
                           if is_cont e
                           then ((b - 0xF0) * 262144 + (c - 0x80) * 4096
                                 + (d - 0x80) * 64 + (e - 0x80)) # utf8_replace es
                           else replacement # utf8_replace ds)))
      else replacement # utf8_replace bs)"

text \<open>The maximal runs of a list on which \<open>P\<close> is constant, each with the value of \<open>P\<close>.\<close>

fun runs :: "('a \<Rightarrow> bool) \<Rightarrow> 'a list \<Rightarrow> (bool \<times> 'a list) list" where
  "runs P [] = []"
| "runs P (x # xs) =
     (case runs P xs of
        [] \<Rightarrow> [(P x, [x])]
      | (b, r) # rest \<Rightarrow> if b = P x then (b, x # r) # rest else (P x, [x]) # (b, r) # rest)"

definition unquote :: "str \<Rightarrow> str" where
  "unquote s =
     (if of_char CHR ''%'' \<notin> set s then s
      else concat (map (\<lambda>(asc, r). if asc then utf8_replace (unquote_to_bytes r) else r)
                       (runs (\<lambda>c. c < 128) s)))"

section \<open>Title extraction\<close>

definition wiki_prefix :: str where
  "wiki_prefix = ascii ''/wiki/''"

definition extract_page_title :: "str \<Rightarrow> py_error + str option" where
  "extract_page_title url =
     (case urlparse url of
        Inl e \<Rightarrow> Inl e
      | Inr parsed \<Rightarrow>
          if startswith (path parsed) wiki_prefix then
            (case split_str (path parsed) wiki_prefix of
               Inl e \<Rightarrow> Inl e
             | Inr parts \<Rightarrow>
                 (case getitem parts 1 of
                    Inl e \<Rightarrow> Inl e
                  | Inr title \<Rightarrow> Inr (Some (unquote title))))
          else Inr None)"

section \<open>Dates\<close>

text \<open>A \<open>datetime.date\<close> is its year, month and day; dates compare as these triples do.\<close>

type_synonym date = "nat \<times> nat \<times> nat"

definition is_leap :: "nat \<Rightarrow> bool" where
  "is_leap y = (y mod 4 = 0 \<and> (y mod 100 \<noteq> 0 \<or> y mod 400 = 0))"

definition days_in_month :: "nat \<Rightarrow> nat \<Rightarrow> nat" where
  "days_in_month y m =
     (if m = 2 then (if is_leap y then 29 else 28)
      else if m \<in> {4, 6, 9, 11} then 30 else 31)"

definition make_date :: "nat \<Rightarrow> nat \<Rightarrow> nat \<Rightarrow> py_error + date" where
  \<comment> \<open>the constructor \<open>datetime.date(y, m, d)\<close>\<close>
  "make_date y m d =
     (if 1 \<le> y \<and> y \<le> 9999 \<and> 1 \<le> m \<and> m \<le> 12 \<and> 1 \<le> d \<and> d \<le> days_in_month y m
      then Inr (y, m, d) else Inl ValueError)"

function decimal :: "nat \<Rightarrow> str" where
  "decimal n = (if n < 10 then [of_char CHR ''0'' + n]
                else decimal (n div 10) @ [of_char CHR ''0'' + n mod 10])"
  by pat_completeness auto
termination
  by (relation "measure id") auto

declare decimal.simps [simp del]

definition str_of_int :: "int \<Rightarrow> str" where
  "str_of_int i = (if i < 0 then of_char CHR ''-'' # decimal (nat (- i)) else decimal (nat i))"

definition two_digits :: "nat \<Rightarrow> str" where
  "two_digits n = (if n < 10 then of_char CHR ''0'' # decimal n else decimal n)"

definition strftime_Ymd :: "date \<Rightarrow> str" where
  \<comment> \<open>\<open>d.strftime("%Y%m%d")\<close>; the C library's \<open>%Y\<close> does not pad a year below 1000\<close>
  "strftime_Ymd d = (case d of (y, m, dd) \<Rightarrow> decimal y @ two_digits m @ two_digits dd)"

subsection \<open>strptime with the format %Y%m%d\<close>

text \<open>
  \<open>_strptime\<close> compiles the format to the regular expression
  \<^verbatim>\<open>(?P<Y>\d\d\d\d)(?P<m>1[0-2]|0[1-9]|[1-9])(?P<d>3[0-1]|[1-2]\d|0[1-9]|[1-9]| [1-9])\<close>,
  takes its first match at the start of the text, raises ValueError when text remains
  after the match, and builds the date. On a \<open>str\<close> pattern \<open>\d\<close> also matches the
  non-ASCII decimal digits of Unicode, a table that is not part of this development.
\<close>

definition digit_val :: "nat \<Rightarrow> nat" where
  "digit_val c = c - of_char CHR ''0''"

definition in_range :: "nat \<Rightarrow> char \<Rightarrow> char \<Rightarrow> bool" where
  "in_range c lo hi = (of_char lo \<le> c \<and> c \<le> of_char hi)"

fun match_day :: "str \<Rightarrow> (nat \<times> str) option" where
  "match_day (a # b # r) =
     (if a = of_char CHR ''3'' \<and> in_range b CHR ''0'' CHR ''1'' then Some (30 + digit_val b, r)
      else if in_range a CHR ''1'' CHR ''2'' \<and> is_digit b then Some (10 * digit_val a + digit_val b, r)
      else if a = of_char CHR ''0'' \<and> in_range b CHR ''1'' CHR ''9'' then Some (digit_val b, r)
      else if in_range a CHR ''1'' CHR ''9'' then Some (digit_val a, b # r)
      else if a = of_char CHR '' '' \<and> in_range b CHR ''1'' CHR ''9'' then Some (digit_val b, r)
      else None)"
| "match_day [a] = (if in_range a CHR ''1'' CHR ''9'' then Some (digit_val a, []) else None)"
| "match_day [] = None"

definition month_candidates :: "str \<Rightarrow> (nat \<times> str) list" where
  \<comment> \<open>the ways the month group can match, in the order the alternatives are tried\<close>
  "month_candidates s =
     (case s of
        a # b # r \<Rightarrow>
          (if a = of_char CHR ''1'' \<and> in_range b CHR ''0'' CHR ''2'' then [(10 + digit_val b, r)] else [])
          @ (if a = of_char CHR ''0'' \<and> in_range b CHR ''1'' CHR ''9'' then [(digit_val b, r)] else [])
          @ (if in_range a CHR ''1'' CHR ''9'' then [(digit_val a, b # r)] else [])
      | [a] \<Rightarrow> (if in_range a CHR ''1'' CHR ''9'' then [(digit_val a, [])] else [])
      | [] \<Rightarrow> [])"

fun first_match :: "(nat \<times> str) list \<Rightarrow> (nat \<times> nat \<times> str) option" where
  "first_match [] = None"
| "first_match ((m, r) # cands) =
     (case match_day r of Some (d, r') \<Rightarrow> Some (m, d, r') | None \<Rightarrow> first_match cands)"

definition strptime_Ymd :: "str \<Rightarrow> py_error + date" where
  "strptime_Ymd s =
     (if \<not> list_all (\<lambda>c. c < 128) s then Inl NotModelled
      else
        (case s of
           y1 # y2 # y3 # y4 # r \<Rightarrow>
             if list_all is_digit [y1, y2, y3, y4] then
               (case first_match (month_candidates r) of
                  None \<Rightarrow> Inl ValueError
                | Some (m, d, r') \<Rightarrow>
                    if r' \<noteq> [] then Inl ValueError
                    else make_date (1000 * digit_val y1 + 100 * digit_val y2
                                    + 10 * digit_val y3 + digit_val y4) m d)
             else Inl ValueError
         | _ \<Rightarrow> Inl ValueError))"

section \<open>JSON values and the HTTP exchange\<close>

text \<open>
  What \<open>response.json()\<close> returns. \<open>JObj\<close> holds the items of a \<open>dict\<close> in insertion
  order, with distinct keys; \<open>JFloat\<close> holds the value of a finite \<open>float\<close>.
\<close>

datatype json =
    JNull | JBool bool | JInt int | JFloat rat | JStr str
  | JArr "json list" | JObj "(str \<times> json) list"

definition and_then :: "'e + 'a \<Rightarrow> ('a \<Rightarrow> 'e + 'b) \<Rightarrow> 'e + 'b" where
  "and_then r f = (case r of Inl e \<Rightarrow> Inl e | Inr x \<Rightarrow> f x)"

definition subscript :: "json \<Rightarrow> str \<Rightarrow> py_error + json" where
  \<comment> \<open>\<open>item[key]\<close> for a \<open>str\<close> key\<close>
  "subscript item k =
     (case item of
        JObj kvs \<Rightarrow> (case map_of kvs k of None \<Rightarrow> Inl KeyError | Some v \<Rightarrow> Inr v)
      | _ \<Rightarrow> Inl TypeError)"

definition get_items :: "json \<Rightarrow> py_error + json" where
  \<comment> \<open>\<open>data.get("items", [])\<close>\<close>
  "get_items data =
     (case data of
        JObj kvs \<Rightarrow> Inr (case map_of kvs (ascii ''items'') of None \<Rightarrow> JArr [] | Some v \<Rightarrow> v)
      | _ \<Rightarrow> Inl AttributeError)"

definition iterate :: "json \<Rightarrow> py_error + json list" where
  \<comment> \<open>the values a \<open>for\<close> loop over the value visits\<close>
  "iterate v =
     (case v of
        JArr xs \<Rightarrow> Inr xs
      | JObj kvs \<Rightarrow> Inr (map (\<lambda>kv. JStr (fst kv)) kvs)
      | JStr s \<Rightarrow> Inr (map (\<lambda>c. JStr [c]) s)
      | _ \<Rightarrow> Inl TypeError)"

definition first8 :: "json \<Rightarrow> py_error + str" where
  \<comment> \<open>\<open>timestamp[:8]\<close>, as \<open>strptime\<close> accepts it: anything but a \<open>str\<close> is a TypeError,
      at the slice or at \<open>strptime\<close>\<close>
  "first8 ts = (case ts of JStr s \<Rightarrow> Inr (take 8 s) | _ \<Rightarrow> Inl TypeError)"

record request =
  req_url :: str
  req_headers :: "(str \<times> str) list"

record response =
  status_code :: int
  body :: "json option"  \<comment> \<open>\<open>None\<close>: the body is not JSON\<close>

text \<open>The upstream service: what \<open>requests.get\<close> does with a request.\<close>

type_synonym upstream = "request \<Rightarrow> py_error + response"

text \<open>What an invocation can change: the lines printed, the requests sent, and the state
  of NumPy's global generator.\<close>

record 'g world =
  stdout :: "str list"
  sent :: "request list"
  rng :: 'g

section \<open>fetch_pageviews\<close>

text \<open>A row of the frame \<open>fetch_pageviews\<close> returns, with its columns \<open>date\<close> and \<open>views\<close>.\<close>

record pageview =
  date :: date
  views :: json

definition record_of :: "json \<Rightarrow> py_error + pageview" where
  \<comment> \<open>the body of the loop over the items\<close>
  "record_of item =
     and_then (subscript item (ascii ''timestamp'')) (\<lambda>ts.
     and_then (first8 ts) (\<lambda>date_str.
     and_then (strptime_Ymd date_str) (\<lambda>date_obj.
     and_then (subscript item (ascii ''views'')) (\<lambda>v.
     Inr \<lparr>date = date_obj, views = v\<rparr>))))"

fun records_of :: "json list \<Rightarrow> py_error + pageview list" where
  "records_of [] = Inr []"
| "records_of (item # items) =
     and_then (record_of item) (\<lambda>r.
     and_then (records_of items) (\<lambda>rs. Inr (r # rs)))"

definition api_url :: "str \<Rightarrow> str \<Rightarrow> str \<Rightarrow> str" where
  "api_url page_title start_str end_str =
     ascii ''https://wikimedia.org/api/rest_v1/metrics/pageviews/per-article/''
     @ ascii ''en.wikipedia/all-access/all-agents/'' @ page_title @ ascii ''/daily/''
     @ start_str @ ascii ''/'' @ end_str"

definition user_agent :: "(str \<times> str) list" where
  "user_agent = [(ascii ''User-Agent'', ascii ''ColabApp/1.0 (example@example.com)'')]"

definition fetch_error_message :: "str \<Rightarrow> int \<Rightarrow> str" where
  "fetch_error_message page_title code =
     ascii ''Error fetching data for '' @ page_title @ ascii '': HTTP '' @ str_of_int code"

definition fetch_pageviews ::
  "upstream \<Rightarrow> str \<Rightarrow> date \<Rightarrow> date \<Rightarrow> 'g world \<Rightarrow> (py_error + pageview list) \<times> 'g world" where
  "fetch_pageviews net page_title start_date end_date w =
     (let start_str = strftime_Ymd start_date;
          end_str = strftime_Ymd end_date;
          req = \<lparr>req_url = api_url page_title start_str end_str, req_headers = user_agent\<rparr>;
          w1 = w\<lparr>sent := sent w @ [req]\<rparr>
      in case net req of
           Inl e \<Rightarrow> (Inl e, w1)
         | Inr resp \<Rightarrow>
             if status_code resp \<noteq> 200
             then (Inr [], w1\<lparr>stdout := stdout w1 @ [fetch_error_message page_title (status_code resp)]\<rparr>)
             else
               (case body resp of
                  None \<Rightarrow> (Inl JSONDecodeError, w1)
                | Some data \<Rightarrow>
                    (and_then (get_items data) (\<lambda>items.
                     and_then (iterate items) records_of), w1)))"


section \<open>The merged table\<close>

text \<open>
  A row of \<open>df_merged\<close>. Its columns are named after the two page titles in the source
  (\<open>views_<title1>\<close>, \<open>views_<title2>\<close>); here they are numbered. An absent cell (NaN) is
  \<open>None\<close>.
\<close>

record merged_row =
  row_date :: date
  views_1 :: "json option"
  views_2 :: "json option"

record result_row = merged_row +
  shares_1 :: int
  shares_2 :: int

text \<open>
  \<open>pd.merge(df1, df2, on="date", how="outer")\<close>: every row of \<open>df1\<close> is paired with every
  row of \<open>df2\<close> of the same date; a row without a partner is kept, with the other frame's
  cell absent.
\<close>

definition merge_outer :: "pageview list \<Rightarrow> pageview list \<Rightarrow> merged_row list" where
  "merge_outer df1 df2 =
     concat (map (\<lambda>l. case filter (\<lambda>r. date r = date l) df2 of
                          [] \<Rightarrow> [\<lparr>row_date = date l, views_1 = Some (views l), views_2 = None\<rparr>]
                        | ms \<Rightarrow> map (\<lambda>r. \<lparr>row_date = date l, views_1 = Some (views l),
                                             views_2 = Some (views r)\<rparr>) ms) df1)
     @ map (\<lambda>r. \<lparr>row_date = date r, views_1 = None, views_2 = Some (views r)\<rparr>)
           (filter (\<lambda>r. date r \<notin> date ` set df1) df2)"

text \<open>
  \<open>.sort_values("date")\<close>. Rows of equal date keep their order here; pandas' default sort
  does not promise that, so nothing below depends on the order of rows of equal date.
\<close>

definition merge_frames :: "pageview list \<Rightarrow> pageview list \<Rightarrow> merged_row list" where
  "merge_frames df1 df2 = sort_key row_date (merge_outer df1 df2)"

section \<open>The share columns\<close>

subsection \<open>float64 arithmetic\<close>

text \<open>
  The doubles of \<open>views * 0.1 + noise\<close> are integer multiples of \<open>2\<^sup>-\<^sup>5\<^sup>5\<close>: the
  double \<open>0.1\<close> is \<open>3602879701896397 / 2\<^sup>5\<^sup>5\<close>. A double \<open>x\<close> is represented by the
  integer \<open>x * 2\<^sup>5\<^sup>5\<close> (an integer operand by itself), and \<open>round53\<close> rounds an integer
  to 53 significant bits, to nearest and ties to even, as every float64 operation does.
  Overflow and subnormal results do not occur for 64-bit integer operands.
\<close>

fun bitlen :: "nat \<Rightarrow> nat" where
  "bitlen n = (if n = 0 then 0 else Suc (bitlen (n div 2)))"

declare bitlen.simps [simp del]

definition round53 :: "nat \<Rightarrow> nat" where
  "round53 k =
     (let g = 2 ^ (bitlen k - 53); q = k div g; r = k mod g
      in if 2 * r < g then q * g
         else if g < 2 * r then (q + 1) * g
         else (if even q then q else q + 1) * g)"

definition round53i :: "int \<Rightarrow> int" where
  "round53i k = sgn k * int (round53 (nat \<bar>k\<bar>))"

definition tenth :: int where
  "tenth = 3602879701896397"

definition share_of :: "int \<Rightarrow> nat \<Rightarrow> int" where
  \<comment> \<open>\<open>int(v * 0.1 + n)\<close> for an int64 \<open>v\<close>: convert, multiply, add, truncate towards zero\<close>
  "share_of v n =
     (let x = round53i (round53i v * tenth);
          y = round53i (x + int n * 2 ^ 55)
      in sgn y * (\<bar>y\<bar> div 2 ^ 55))"

subsection \<open>NumPy's global generator\<close>

text \<open>
  The generator is a parameter: \<open>seed\<close> is the state \<open>np.random.seed\<close> installs, \<open>draw\<close>
  one bounded draw of \<open>randint(0, 10)\<close>. \<open>randint(0, 10, size=n)\<close> takes \<open>n\<close> draws in
  row order.
\<close>

record 'g generator =
  seed :: "nat \<Rightarrow> 'g"
  draw :: "'g \<Rightarrow> nat \<times> 'g"

fun randint :: "('g \<Rightarrow> nat \<times> 'g) \<Rightarrow> nat \<Rightarrow> 'g \<Rightarrow> nat list \<times> 'g" where
  "randint d 0 g = ([], g)"
| "randint d (Suc n) g =
     (case d g of (x, g') \<Rightarrow> (case randint d n g' of (xs, g'') \<Rightarrow> (x # xs, g'')))"

subsection \<open>Lines 92 to 96\<close>

definition int64 :: "int \<Rightarrow> bool" where
  "int64 v = (- (2 ^ 63) \<le> v \<and> v < 2 ^ 63)"

definition int_cell :: "json option \<Rightarrow> bool" where
  \<comment> \<open>a cell of an integer column, or an absent cell\<close>
  "int_cell c = (case c of None \<Rightarrow> True | Some (JInt v) \<Rightarrow> int64 v | Some _ \<Rightarrow> False)"

definition cell_value :: "json option \<Rightarrow> int option" where
  "cell_value c = (case c of Some (JInt v) \<Rightarrow> Some v | _ \<Rightarrow> None)"

text \<open>
  \<open>(column * 0.1 + noise).astype(int)\<close>. The conversion raises IntCastingNaNError (a
  ValueError) when a cell is absent. Columns that hold anything but 64-bit integers get
  a dtype by pandas' inference and are not modelled.
\<close>

definition shares_column :: "json option list \<Rightarrow> nat list \<Rightarrow> py_error + int list" where
  "shares_column col noise =
     (if \<not> list_all int_cell col then Inl NotModelled
      else (case those (map cell_value col) of
              None \<Rightarrow> Inl IntCastingNaNError
            | Some vs \<Rightarrow> Inr (map2 share_of vs noise)))"

definition simulate_shares ::
  "'g generator \<Rightarrow> merged_row list \<Rightarrow> 'g world \<Rightarrow> (py_error + result_row list) \<times> 'g world" where
  "simulate_shares gen df w =
     (let w0 = w\<lparr>rng := seed gen 42\<rparr>;
          (noise1, g1) = randint (draw gen) (length df) (rng w0);
          w1 = w0\<lparr>rng := g1\<rparr>
      in (case shares_column (map views_1 df) noise1 of
            Inl e \<Rightarrow> (Inl e, w1)
          | Inr s1 \<Rightarrow>
              (let (noise2, g2) = randint (draw gen) (length df) (rng w1);
                   w2 = w1\<lparr>rng := g2\<rparr>
               in (case shares_column (map views_2 df) noise2 of
                     Inl e \<Rightarrow> (Inl e, w2)
                   | Inr s2 \<Rightarrow>
                       (Inr (map (\<lambda>(r, a, b). \<lparr>row_date = row_date r, views_1 = views_1 r,
                                                 views_2 = views_2 r, shares_1 = a, shares_2 = b\<rparr>)
                                 (zip df (zip s1 s2))), w2)))))"

section \<open>analyze_wiki_pages\<close>

definition bad_input_message :: str where
  "bad_input_message = ascii ''Error: Could not extract page title from one or both URLs.''"

definition fetching_message :: "str \<Rightarrow> str \<Rightarrow> str" where
  "fetching_message t1 t2 =
     ascii [CHR 0x0A] @ ascii ''Fetching data for '' @ ascii [CHR 0x27] @ t1 @ ascii [CHR 0x27]
     @ ascii '' and '' @ ascii [CHR 0x27] @ t2 @ ascii [CHR 0x27] @ ascii '' ...''"

definition no_data_message :: str where
  "no_data_message =
     ascii ''No data available for one or both pages. Check your URLs or date range.''"

definition print :: "str \<Rightarrow> 'g world \<Rightarrow> 'g world" where
  "print line w = w\<lparr>stdout := stdout w @ [line]\<rparr>"

definition truthy :: "str option \<Rightarrow> bool" where
  \<comment> \<open>\<open>not x\<close> holds of \<open>None\<close> and of the empty string\<close>
  "truthy t = (case t of None \<Rightarrow> False | Some s \<Rightarrow> s \<noteq> [])"

text \<open>
  Lines 75 to 124, for the two extracted titles. The frames are merged on \<open>date\<close>; when
  both titles are the same, both \<open>views\<close> columns get the same name, the merge renames
  them apart and the lookup of line 93 raises KeyError. The two charts drawn before the
  return are presentation and are left out.
\<close>

definition compare_pages ::
  "upstream \<Rightarrow> 'g generator \<Rightarrow> str \<Rightarrow> str \<Rightarrow> date \<Rightarrow> date \<Rightarrow> 'g world
     \<Rightarrow> (py_error + result_row list option) \<times> 'g world" where
  "compare_pages net gen page1_title page2_title start_date end_date w =
     (let w1 = print (fetching_message page1_title page2_title) w in
      case fetch_pageviews net page1_title start_date end_date w1 of
        (Inl e, w2) \<Rightarrow> (Inl e, w2)
      | (Inr df1, w2) \<Rightarrow>
          (case fetch_pageviews net page2_title start_date end_date w2 of
             (Inl e, w3) \<Rightarrow> (Inl e, w3)
           | (Inr df2, w3) \<Rightarrow>
               if df1 = [] \<or> df2 = [] then (Inr None, print no_data_message w3)
               else if page1_title = page2_title then (Inl KeyError, w3\<lparr>rng := seed gen 42\<rparr>)
               else
                 (case simulate_shares gen (merge_frames df1 df2) w3 of
                    (Inl e, w4) \<Rightarrow> (Inl e, w4)
                  | (Inr df_merged, w4) \<Rightarrow> (Inr (Some df_merged), w4))))"

definition analyze_wiki_pages ::
  "upstream \<Rightarrow> 'g generator \<Rightarrow> str \<Rightarrow> str \<Rightarrow> date \<Rightarrow> date \<Rightarrow> 'g world
     \<Rightarrow> (py_error + result_row list option) \<times> 'g world" where
  "analyze_wiki_pages net gen url1 url2 start_date end_date w =
     (case extract_page_title url1 of
        Inl e \<Rightarrow> (Inl e, w)
      | Inr page1_title \<Rightarrow>
          (case extract_page_title url2 of
             Inl e \<Rightarrow> (Inl e, w)
           | Inr page2_title \<Rightarrow>
               if \<not> truthy page1_title \<or> \<not> truthy page2_title
               then (Inr None, print bad_input_message w)
               else
                 (case (page1_title, page2_title) of
                    (Some t1, Some t2) \<Rightarrow> compare_pages net gen t1 t2 start_date end_date w
                  | _ \<Rightarrow> (Inr None, print bad_input_message w))))"


section \<open>Notions used in the statements\<close>

text \<open>The text of \<open>s\<close> before the first occurrence of \<open>sep\<close>, all of \<open>s\<close> when there is none.\<close>

definition until_sep :: "str \<Rightarrow> str \<Rightarrow> str" where
  "until_sep sep s = (case find_sub sep s of None \<Rightarrow> s | Some i \<Rightarrow> take i s)"

text \<open>A frame whose views values are all 64-bit integers, as the API serves them.\<close>

definition int_frame :: "pageview list \<Rightarrow> bool" where
  "int_frame df = list_all (\<lambda>r. case views r of JInt v \<Rightarrow> int64 v | _ \<Rightarrow> False) df"

section \<open>Concrete inputs\<close>

definition wiki_root :: parse_result where
  "wiki_root = \<lparr>scheme = ascii ''https'', netloc = ascii ''en.wikipedia.org'',
     path = ascii ''/wiki/'', params = [], query = [], fragment = []\<rparr>"


text \<open>The request \<open>fetch_pageviews\<close> sends for a title and a date range.\<close>

definition the_request :: "str \<Rightarrow> date \<Rightarrow> date \<Rightarrow> request" where
  "the_request page_title start_date end_date =
     \<lparr>req_url = api_url page_title (strftime_Ymd start_date) (strftime_Ymd end_date),
      req_headers = user_agent\<rparr>"

text \<open>An item that bears a timestamp whose first 8 characters \<open>strptime\<close> reads as the date
  of \<open>r\<close>, and a views value that is the one of \<open>r\<close>.\<close>

definition well_formed_item :: "json \<Rightarrow> pageview \<Rightarrow> bool" where
  "well_formed_item item r =
     (case item of
        JObj flds \<Rightarrow>
          (case map_of flds (ascii ''timestamp'') of
             Some (JStr ts) \<Rightarrow>
               strptime_Ymd (take 8 ts) = Inr (date r)
               \<and> map_of flds (ascii ''views'') = Some (views r)
           | _ \<Rightarrow> False)
      | _ \<Rightarrow> False)"

definition world0 :: "unit world" where
  "world0 = \<lparr>stdout = [], sent = [], rng = ()\<rparr>"

definition jan1 :: date where "jan1 = (2022, 1, 1)"

definition jan31 :: date where "jan31 = (2022, 1, 31)"

definition serve :: "int \<Rightarrow> json option \<Rightarrow> upstream" where
  "serve code data req = Inr \<lparr>status_code = code, body = data\<rparr>"

definition item_jan1 :: json where
  "item_jan1 = JObj [(ascii ''timestamp'', JStr (ascii ''2022010100'')), (ascii ''views'', JInt 120)]"

definition item_jan2 :: json where
  "item_jan2 = JObj [(ascii ''timestamp'', JStr (ascii ''2022010200'')), (ascii ''views'', JInt 95)]"

definition no_timestamp :: "(str \<times> json) list" where
  "no_timestamp = [(ascii ''views'', JInt 7)]"

definition no_views :: "(str \<times> json) list" where
  "no_views = [(ascii ''timestamp'', JStr (ascii ''2022010300''))]"

text \<open>The character of a decimal digit.\<close>

definition digit_chr :: "nat \<Rightarrow> nat" where
  "digit_chr n = of_char CHR ''0'' + n"

text \<open>A small generator to run the pipeline on, and an upstream that answers 404 for the
  page \<open>A\<close> and an item without timestamp for any other page.\<close>

definition lcg :: "nat generator" where
  "lcg = \<lparr>seed = (\<lambda>n. n), draw = (\<lambda>g. ((g div 7) mod 10, (75 * g + 74) mod 65537))\<rparr>"

definition world1 :: "nat world" where
  "world1 = \<lparr>stdout = [], sent = [], rng = 0\<rparr>"

definition route :: upstream where
  "route req =
     (if req = the_request (ascii ''A'') jan1 jan31
      then Inr \<lparr>status_code = 404, body = None\<rparr>
      else Inr \<lparr>status_code = 200,
                body = Some (JObj [(ascii ''items'', JArr [JObj no_timestamp])])\<rparr>)"




definition frame_a :: "pageview list" where
  "frame_a = [\<lparr>date = (2022, 1, 1), views = JInt 120\<rparr>, \<lparr>date = (2022, 1, 2), views = JInt 95\<rparr>]"


text \<open>Merged tables of one row: one with a views value far above \<open>2\<^sup>5\<^sup>3\<close>, one with
  ordinary values.\<close>

definition huge_table :: "merged_row list" where
  "huge_table = [\<lparr>row_date = (2022, 1, 1), views_1 = Some (JInt 22517998136852435),
                  views_2 = Some (JInt 0)\<rparr>]"

definition small_table :: "merged_row list" where
  "small_table = [\<lparr>row_date = (2022, 1, 1), views_1 = Some (JInt 120), views_2 = Some (JInt 47)\<rparr>]"

text \<open>An upstream that serves two days for the page \<open>A\<close> and the second of them only for
  any other page, and a frame of that one day.\<close>

definition two_pages :: upstream where
  "two_pages req =
     (if req = the_request (ascii ''A'') jan1 jan31
      then Inr \<lparr>status_code = 200,
                body = Some (JObj [(ascii ''items'', JArr [item_jan1, item_jan2])])\<rparr>
      else Inr \<lparr>status_code = 200,
                body = Some (JObj [(ascii ''items'', JArr [item_jan2])])\<rparr>)"

definition only_jan2 :: "pageview list" where
  "only_jan2 = [\<lparr>date = (2022, 1, 2), views = JInt 95\<rparr>]"

section \<open>Properties of title extraction\<close>

lemma wiki_prefix_length: "length wiki_prefix = 6" "wiki_prefix \<noteq> []"
  by (simp_all add: wiki_prefix_def ascii_def)

lemma find_sub_startswith: "startswith s sep \<Longrightarrow> find_sub sep s = Some 0"
  by (cases s) (auto simp: startswith_def)

lemma find_sub_zero: "sep \<noteq> [] \<Longrightarrow> find_sub sep s = Some 0 \<longleftrightarrow> startswith s sep"
  by (cases s) (auto simp: startswith_def)

lemma split_at_startswith:
  "sep \<noteq> [] \<Longrightarrow> startswith s sep \<Longrightarrow> split_at sep s = [] # split_at sep (drop (length sep) s)"
  by (subst split_at.simps) (simp add: find_sub_startswith)

lemma split_at_hd: "sep \<noteq> [] \<Longrightarrow> \<exists>rest. split_at sep s = until_sep sep s # rest"
  by (subst split_at.simps) (simp add: until_sep_def split: option.splits)

text \<open>With the prefix, the title is the decoded text up to the next \<open>/wiki/\<close>: the element
  of index 1 of the split. The split always has that element, so IndexError is never raised.\<close>

lemma extract_page_title_prefix:
  assumes "urlparse url = Inr p" "startswith (path p) wiki_prefix"
  shows "extract_page_title url = Inr (Some (unquote (until_sep wiki_prefix (drop 6 (path p)))))"
proof -
  obtain rest where
    "split_at wiki_prefix (drop 6 (path p)) = until_sep wiki_prefix (drop 6 (path p)) # rest"
    using split_at_hd [OF wiki_prefix_length(2)] by blast
  then have "split_at wiki_prefix (path p) = [] # until_sep wiki_prefix (drop 6 (path p)) # rest"
    using split_at_startswith [OF wiki_prefix_length(2) assms(2)] by (simp add: wiki_prefix_length)
  then show ?thesis
    using assms by (simp add: extract_page_title_def split_str_def getitem_def wiki_prefix_length)
qed

lemma extract_page_title_no_prefix:
  "urlparse url = Inr p \<Longrightarrow> \<not> startswith (path p) wiki_prefix \<Longrightarrow> extract_page_title url = Inr None"
  by (simp add: extract_page_title_def)

lemma unquote_to_bytes_Nil: "unquote_to_bytes s = [] \<longleftrightarrow> s = []"
  by (induction s rule: unquote_to_bytes.induct) (auto split: option.splits)

lemma utf8_replace_Nil: "utf8_replace s = [] \<longleftrightarrow> s = []"
  by (cases s) (auto simp: replacement_def split: list.splits)

lemma runs_Nil: "runs P s = [] \<longleftrightarrow> s = []"
  by (cases s) (auto split: list.splits)

lemma runs_nonempty: "(b, r) \<in> set (runs P s) \<Longrightarrow> r \<noteq> []"
  by (induction s arbitrary: b r) (auto split: list.splits if_splits)

lemma unquote_Nil: "unquote s = [] \<longleftrightarrow> s = []"
proof (cases "of_char CHR ''%'' \<in> set s")
  case False
  then show ?thesis by (simp add: unquote_def)
next
  case True
  then have ne: "s \<noteq> []" by auto
  then obtain b r rest where rs: "runs (\<lambda>c. c < 128) s = (b, r) # rest"
    using runs_Nil [of "\<lambda>c. c < 128" s] by (cases "runs (\<lambda>c. c < 128) s") auto
  then have "r \<noteq> []"
    using runs_nonempty [of b r "\<lambda>c. c < 128" s] by simp
  then have "(if b then utf8_replace (unquote_to_bytes r) else r) \<noteq> []"
    by (simp add: utf8_replace_Nil unquote_to_bytes_Nil)
  with True rs ne show ?thesis
    by (simp add: unquote_def)
qed

text \<open>
  C4. Title extraction is claimed to return the decoded remainder of the path after the
  prefix \<open>/wiki/\<close>. The source takes \<open>path.split("/wiki/")[1]\<close>, which ends at the next
  \<open>/wiki/\<close>: for \<open>https://en.wikipedia.org/wiki/A/wiki/B\<close> the parsed path is
  \<open>/wiki/A/wiki/B\<close>, the remainder decodes to \<open>A/wiki/B\<close>, and the function returns \<open>A\<close>.
\<close>

theorem extract_page_title_second_prefix:
  "map_sum id path (urlparse (ascii ''https://en.wikipedia.org/wiki/A/wiki/B''))
     = Inr (ascii ''/wiki/A/wiki/B'')
   \<and> extract_page_title (ascii ''https://en.wikipedia.org/wiki/A/wiki/B'') = Inr (Some (ascii ''A''))
   \<and> unquote (drop (length wiki_prefix) (ascii ''/wiki/A/wiki/B'')) = ascii ''A/wiki/B''"
  by code_simp

text \<open>
  C10 as stated fails: for \<open>https://en.wikipedia.org/wiki/\<close> extraction returns the empty
  string, not \<open>None\<close>.
\<close>

theorem extract_page_title_empty_string:
  "extract_page_title (ascii ''https://en.wikipedia.org/wiki/'') = Inr (Some [])"
  by code_simp

text \<open>
  C10, amended. For every URL that parses, extraction returns \<open>None\<close> when the path does
  not begin with \<open>/wiki/\<close>. When the path begins with \<open>/wiki/\<close> and no further \<open>/wiki/\<close>
  follows, it returns a string, the decoded remainder of the path, and that string is
  empty exactly when the path is \<open>/wiki/\<close> itself.
\<close>

theorem extract_page_title_empty:
  assumes "urlparse url = Inr p"
  shows "(\<not> startswith (path p) wiki_prefix \<longrightarrow> extract_page_title url = Inr None)
       \<and> (startswith (path p) wiki_prefix
            \<and> find_sub wiki_prefix (drop (length wiki_prefix) (path p)) = None \<longrightarrow>
            extract_page_title url = Inr (Some (unquote (drop (length wiki_prefix) (path p))))
            \<and> (unquote (drop (length wiki_prefix) (path p)) = [] \<longleftrightarrow> path p = wiki_prefix))"
proof (intro conjI impI)
  assume "\<not> startswith (path p) wiki_prefix"
  with assms show "extract_page_title url = Inr None"
    by (rule extract_page_title_no_prefix)
next
  assume a: "startswith (path p) wiki_prefix
            \<and> find_sub wiki_prefix (drop (length wiki_prefix) (path p)) = None"
  then have pre: "startswith (path p) wiki_prefix"
    and none: "find_sub wiki_prefix (drop 6 (path p)) = None"
    by (simp_all add: wiki_prefix_length)
  from none have "until_sep wiki_prefix (drop 6 (path p)) = drop 6 (path p)"
    by (simp add: until_sep_def)
  with extract_page_title_prefix [OF assms pre]
  show "extract_page_title url = Inr (Some (unquote (drop (length wiki_prefix) (path p))))"
    by (simp add: wiki_prefix_length)
next
  assume a: "startswith (path p) wiki_prefix
            \<and> find_sub wiki_prefix (drop (length wiki_prefix) (path p)) = None"
  then have pre: "startswith (path p) wiki_prefix"
    by simp
  have "drop 6 (path p) = [] \<longleftrightarrow> path p = wiki_prefix"
    using pre wiki_prefix_length(1) unfolding startswith_def
    by (metis drop_eq_Nil2 le_refl take_all)
  then show "unquote (drop (length wiki_prefix) (path p)) = [] \<longleftrightarrow> path p = wiki_prefix"
    by (simp add: unquote_Nil wiki_prefix_length)
qed

theorem extract_page_title_empty_witness:
  "urlparse (ascii ''https://en.wikipedia.org/wiki/'') = Inr wiki_root
   \<and> startswith (path wiki_root) wiki_prefix
   \<and> find_sub wiki_prefix (drop (length wiki_prefix) (path wiki_root)) = None
   \<and> path wiki_root = wiki_prefix
   \<and> extract_page_title (ascii ''https://en.wikipedia.org/wiki/'') = Inr (Some [])"
proof -
  have h: "urlparse (ascii ''https://en.wikipedia.org/wiki/'') = Inr wiki_root"
    by code_simp
  have pre: "startswith (path wiki_root) wiki_prefix" and eq: "path wiki_root = wiki_prefix"
    by (simp_all add: wiki_root_def startswith_def wiki_prefix_def)
  have none: "find_sub wiki_prefix (drop (length wiki_prefix) (path wiki_root)) = None"
    by (simp add: eq wiki_prefix_length)
  from extract_page_title_empty [OF h] pre none eq
  have "extract_page_title (ascii ''https://en.wikipedia.org/wiki/'') = Inr (Some [])"
    by auto
  with h pre none eq show ?thesis by simp
qed

section \<open>Properties of the fetcher\<close>

lemma record_of_well_formed: "well_formed_item item r \<Longrightarrow> record_of item = Inr r"
  by (auto simp: well_formed_item_def record_of_def and_then_def subscript_def first8_def
           split: json.splits option.splits)

lemma records_of_well_formed: "list_all2 well_formed_item items rs \<Longrightarrow> records_of items = Inr rs"
  by (induction items rs rule: list_all2_induct) (simp_all add: record_of_well_formed and_then_def)

lemma fetch_pageviews_sent:
  "snd (fetch_pageviews net t s e w) = w\<lparr>sent := sent w @ [the_request t s e]\<rparr>
   \<or> (\<exists>line. snd (fetch_pageviews net t s e w)
        = w\<lparr>sent := sent w @ [the_request t s e], stdout := stdout w @ [line]\<rparr>)"
  by (auto simp: fetch_pageviews_def the_request_def Let_def split: sum.splits option.splits)

lemma records_of_append:
  "records_of (xs @ ys) = and_then (records_of xs) (\<lambda>rs. and_then (records_of ys) (\<lambda>rs'. Inr (rs @ rs')))"
  by (induction xs) (auto simp: and_then_def split: sum.splits)

lemma records_of_first_bad:
  "records_of good = Inr rs \<Longrightarrow> record_of bad = Inl err \<Longrightarrow> records_of (good @ bad # rest) = Inl err"
  by (simp add: records_of_append and_then_def)

text \<open>
  C5. A response of status 200 whose body holds a list \<open>items\<close> of \<open>N\<close> items, each bearing a
  timestamp and a views value: the fetcher sends one request and returns exactly \<open>N\<close>
  records, in the order of the items; the date of each record is what \<open>strptime\<close> reads in
  the first 8 characters of the timestamp, its views value is the item's.
\<close>

theorem fetch_pageviews_success:
  assumes "net (the_request t s e) = Inr resp"
    and "status_code resp = 200"
    and "body resp = Some (JObj kvs)"
    and "map_of kvs (ascii ''items'') = Some (JArr items)"
    and "list_all2 well_formed_item items rs"
  shows "fetch_pageviews net t s e w = (Inr rs, w\<lparr>sent := sent w @ [the_request t s e]\<rparr>)
         \<and> length rs = length items"
  using assms records_of_well_formed [OF assms(5)] list_all2_lengthD [OF assms(5)]
  by (simp add: fetch_pageviews_def the_request_def Let_def get_items_def iterate_def and_then_def)

theorem fetch_pageviews_success_witness:
  "fetch_pageviews (serve 200 (Some (JObj [(ascii ''items'', JArr [item_jan1, item_jan2])])))
       (ascii ''Foo'') jan1 jan31 world0
     = (Inr [\<lparr>date = (2022, 1, 1), views = JInt 120\<rparr>, \<lparr>date = (2022, 1, 2), views = JInt 95\<rparr>],
        world0\<lparr>sent := sent world0 @ [the_request (ascii ''Foo'') jan1 jan31]\<rparr>)"
proof -
  have wf1: "well_formed_item item_jan1 \<lparr>date = (2022, 1, 1), views = JInt 120\<rparr>"
    by code_simp
  have wf2: "well_formed_item item_jan2 \<lparr>date = (2022, 1, 2), views = JInt 95\<rparr>"
    by code_simp
  have items: "map_of [(ascii ''items'', JArr [item_jan1, item_jan2])] (ascii ''items'')
                 = Some (JArr [item_jan1, item_jan2])"
    by simp
  show ?thesis
    using fetch_pageviews_success [of "serve 200 (Some (JObj [(ascii ''items'', JArr [item_jan1, item_jan2])]))"
        "ascii ''Foo''" jan1 jan31 "\<lparr>status_code = 200, body = Some (JObj [(ascii ''items'', JArr [item_jan1, item_jan2])])\<rparr>"
        "[(ascii ''items'', JArr [item_jan1, item_jan2])]" "[item_jan1, item_jan2]"
        "[\<lparr>date = (2022, 1, 1), views = JInt 120\<rparr>, \<lparr>date = (2022, 1, 2), views = JInt 95\<rparr>]" world0]
      wf1 wf2 items
    by (simp add: serve_def)
qed

text \<open>
  C6. A response of any status but 200: the fetcher prints one line, which names the page
  title and the status code, and returns the empty frame; no exception is raised.
\<close>

theorem fetch_pageviews_http_error:
  assumes "net (the_request t s e) = Inr resp"
    and "status_code resp \<noteq> 200"
  shows "fetch_pageviews net t s e w =
           (Inr [], w\<lparr>sent := sent w @ [the_request t s e],
                      stdout := stdout w @ [ascii ''Error fetching data for '' @ t
                                            @ ascii '': HTTP '' @ str_of_int (status_code resp)]\<rparr>)"
  using assms
  by (simp add: fetch_pageviews_def the_request_def Let_def fetch_error_message_def)

theorem fetch_pageviews_http_error_witness:
  "fetch_pageviews (serve 404 None) (ascii ''Foo'') jan1 jan31 world0
     = (Inr [], world0\<lparr>sent := sent world0 @ [the_request (ascii ''Foo'') jan1 jan31],
                       stdout := stdout world0 @ [ascii ''Error fetching data for Foo: HTTP 404'']\<rparr>)"
proof -
  have msg: "ascii ''Error fetching data for '' @ ascii ''Foo'' @ ascii '': HTTP '' @ str_of_int 404
               = ascii ''Error fetching data for Foo: HTTP 404''"
    by code_simp
  show ?thesis
    using fetch_pageviews_http_error [of "serve 404 None" "ascii ''Foo''" jan1 jan31
        "\<lparr>status_code = 404, body = None\<rparr>" world0] msg
    by (simp add: serve_def)
qed

text \<open>
  C9 as stated fails: a body of status 200 without \<open>items\<close> is read with
  \<open>data.get("items", [])\<close>, and the fetcher returns an empty frame without raising.
\<close>

theorem fetch_pageviews_missing_items:
  "fst (fetch_pageviews (serve 200 (Some (JObj []))) (ascii ''Foo'') jan1 jan31 world0) = Inr []"
  by code_simp

text \<open>
  C9, amended. For a response of status 200 whose body is a JSON object: when \<open>items\<close> is
  missing the fetcher returns the empty frame and raises nothing; when the first item that
  is not well formed is an object without \<open>timestamp\<close>, or one with a readable timestamp
  and without \<open>views\<close>, the KeyError is not caught and is the outcome of the call.
\<close>

theorem fetch_pageviews_malformed:
  assumes "net (the_request t s e) = Inr resp"
    and "status_code resp = 200"
    and "body resp = Some (JObj kvs)"
  shows "(map_of kvs (ascii ''items'') = None \<longrightarrow>
            fetch_pageviews net t s e w = (Inr [], w\<lparr>sent := sent w @ [the_request t s e]\<rparr>))
       \<and> (map_of kvs (ascii ''items'') = Some (JArr (good @ JObj flds # rest))
            \<and> records_of good = Inr rs
            \<and> map_of flds (ascii ''timestamp'') = None \<longrightarrow>
            fst (fetch_pageviews net t s e w) = Inl KeyError)
       \<and> (map_of kvs (ascii ''items'') = Some (JArr (good @ JObj flds # rest))
            \<and> records_of good = Inr rs
            \<and> map_of flds (ascii ''timestamp'') = Some (JStr ts)
            \<and> strptime_Ymd (take 8 ts) = Inr d
            \<and> map_of flds (ascii ''views'') = None \<longrightarrow>
            fst (fetch_pageviews net t s e w) = Inl KeyError)"
proof (intro conjI impI)
  assume "map_of kvs (ascii ''items'') = None"
  with assms show "fetch_pageviews net t s e w = (Inr [], w\<lparr>sent := sent w @ [the_request t s e]\<rparr>)"
    by (simp add: fetch_pageviews_def the_request_def Let_def get_items_def iterate_def and_then_def)
next
  assume a: "map_of kvs (ascii ''items'') = Some (JArr (good @ JObj flds # rest))
            \<and> records_of good = Inr rs \<and> map_of flds (ascii ''timestamp'') = None"
  then have "record_of (JObj flds) = Inl KeyError"
    by (simp add: record_of_def and_then_def subscript_def)
  with a have "records_of (good @ JObj flds # rest) = Inl KeyError"
    by (simp add: records_of_first_bad)
  with a assms show "fst (fetch_pageviews net t s e w) = Inl KeyError"
    by (simp add: fetch_pageviews_def the_request_def Let_def get_items_def iterate_def and_then_def)
next
  assume a: "map_of kvs (ascii ''items'') = Some (JArr (good @ JObj flds # rest))
            \<and> records_of good = Inr rs
            \<and> map_of flds (ascii ''timestamp'') = Some (JStr ts)
            \<and> strptime_Ymd (take 8 ts) = Inr d
            \<and> map_of flds (ascii ''views'') = None"
  then have "record_of (JObj flds) = Inl KeyError"
    by (simp add: record_of_def and_then_def subscript_def first8_def)
  with a have "records_of (good @ JObj flds # rest) = Inl KeyError"
    by (simp add: records_of_first_bad)
  with a assms show "fst (fetch_pageviews net t s e w) = Inl KeyError"
    by (simp add: fetch_pageviews_def the_request_def Let_def get_items_def iterate_def and_then_def)
qed

theorem fetch_pageviews_malformed_witness:
  "fetch_pageviews (serve 200 (Some (JObj []))) (ascii ''Foo'') jan1 jan31 world0
     = (Inr [], world0\<lparr>sent := sent world0 @ [the_request (ascii ''Foo'') jan1 jan31]\<rparr>)
   \<and> fst (fetch_pageviews (serve 200 (Some (JObj [(ascii ''items'', JArr [item_jan1, JObj no_timestamp])])))
            (ascii ''Foo'') jan1 jan31 world0) = Inl KeyError
   \<and> fst (fetch_pageviews (serve 200 (Some (JObj [(ascii ''items'', JArr [item_jan1, JObj no_views])])))
            (ascii ''Foo'') jan1 jan31 world0) = Inl KeyError"
proof -
  have good: "records_of [item_jan1] = Inr [\<lparr>date = (2022, 1, 1), views = JInt 120\<rparr>]"
    by code_simp
  have nt: "map_of no_timestamp (ascii ''timestamp'') = None"
    by code_simp
  have nv: "map_of no_views (ascii ''timestamp'') = Some (JStr (ascii ''2022010300''))"
       "map_of no_views (ascii ''views'') = None"
       "strptime_Ymd (take 8 (ascii ''2022010300'')) = Inr (2022, 1, 3)"
    by code_simp+
  have a: "fetch_pageviews (serve 200 (Some (JObj []))) (ascii ''Foo'') jan1 jan31 world0
     = (Inr [], world0\<lparr>sent := sent world0 @ [the_request (ascii ''Foo'') jan1 jan31]\<rparr>)"
    using fetch_pageviews_malformed [of "serve 200 (Some (JObj []))" "ascii ''Foo''" jan1 jan31
        "\<lparr>status_code = 200, body = Some (JObj [])\<rparr>" "[]" world0]
    by (simp add: serve_def)
  have b: "fst (fetch_pageviews (serve 200 (Some (JObj [(ascii ''items'', JArr [item_jan1, JObj no_timestamp])])))
            (ascii ''Foo'') jan1 jan31 world0) = Inl KeyError"
    using fetch_pageviews_malformed [of "serve 200 (Some (JObj [(ascii ''items'', JArr [item_jan1, JObj no_timestamp])]))"
        "ascii ''Foo''" jan1 jan31
        "\<lparr>status_code = 200, body = Some (JObj [(ascii ''items'', JArr [item_jan1, JObj no_timestamp])])\<rparr>"
        "[(ascii ''items'', JArr [item_jan1, JObj no_timestamp])]" world0
        "[item_jan1]" no_timestamp "[]" "[\<lparr>date = (2022, 1, 1), views = JInt 120\<rparr>]"] good nt
    by (simp add: serve_def)
  have c: "fst (fetch_pageviews (serve 200 (Some (JObj [(ascii ''items'', JArr [item_jan1, JObj no_views])])))
            (ascii ''Foo'') jan1 jan31 world0) = Inl KeyError"
    using fetch_pageviews_malformed [of "serve 200 (Some (JObj [(ascii ''items'', JArr [item_jan1, JObj no_views])]))"
        "ascii ''Foo''" jan1 jan31
        "\<lparr>status_code = 200, body = Some (JObj [(ascii ''items'', JArr [item_jan1, JObj no_views])])\<rparr>"
        "[(ascii ''items'', JArr [item_jan1, JObj no_views])]" world0
        "[item_jan1]" no_views "[]" "[\<lparr>date = (2022, 1, 1), views = JInt 120\<rparr>]"
        "ascii ''2022010300''" "(2022, 1, 3)"] good nv
    by (simp add: serve_def)
  from a b c show ?thesis by simp
qed

section \<open>Properties of date parsing\<close>

text \<open>
  On eight ASCII digits, \<open>strptime\<close> with \<open>%Y%m%d\<close> reads the year from the first four,
  the month from the next two and the day from the last two, and answers as the \<open>date\<close>
  constructor does: the shorter alternatives of the month and day patterns never give a
  full match there.
\<close>

lemma match_day_two:
  assumes "d1 < 10" "d2 < 10"
  shows "match_day [digit_chr d1, digit_chr d2] =
     (if 1 \<le> 10 * d1 + d2 \<and> 10 * d1 + d2 \<le> 31 then Some (10 * d1 + d2, [])
      else if 1 \<le> d1 then Some (d1, [digit_chr d2]) else None)"
  using assms by (auto simp: digit_chr_def in_range_def is_digit_def digit_val_def)

lemma match_day_three:
  assumes "a < 10" "b < 10"
  shows "match_day [digit_chr a, digit_chr b, c] = None
       \<or> (\<exists>d x r. match_day [digit_chr a, digit_chr b, c] = Some (d, x # r))"
  using assms by (auto simp: digit_chr_def in_range_def is_digit_def digit_val_def)

lemma month_candidates_digits:
  assumes "m1 < 10" "m2 < 10"
  shows "month_candidates (digit_chr m1 # digit_chr m2 # r) =
     (if m1 = 1 \<and> m2 \<le> 2 then [(10 + m2, r)] else [])
     @ (if m1 = 0 \<and> 1 \<le> m2 then [(m2, r)] else [])
     @ (if 1 \<le> m1 then [(m1, digit_chr m2 # r)] else [])"
  using assms by (auto simp: month_candidates_def digit_chr_def in_range_def digit_val_def)

lemma days_in_month_bounds: "28 \<le> days_in_month y m" "days_in_month y m \<le> 31"
  by (simp_all add: days_in_month_def)

lemma strptime_unfold:
  assumes "y1 < 10" "y2 < 10" "y3 < 10" "y4 < 10" "m1 < 10" "m2 < 10" "d1 < 10" "d2 < 10"
  shows "strptime_Ymd (map digit_chr [y1, y2, y3, y4, m1, m2, d1, d2]) =
      (case first_match (month_candidates (digit_chr m1 # digit_chr m2 # [digit_chr d1, digit_chr d2])) of
         None \<Rightarrow> Inl ValueError
       | Some (m, d, r') \<Rightarrow> if r' \<noteq> [] then Inl ValueError
                             else make_date (1000 * y1 + 100 * y2 + 10 * y3 + y4) m d)"
proof -
  have ascii: "list_all (\<lambda>c. c < 128) [digit_chr y1, digit_chr y2, digit_chr y3, digit_chr y4,
                  digit_chr m1, digit_chr m2, digit_chr d1, digit_chr d2]"
    using assms by (simp add: digit_chr_def)
  have digits: "list_all is_digit [digit_chr y1, digit_chr y2, digit_chr y3, digit_chr y4]"
    using assms by (simp add: digit_chr_def is_digit_def)
  have vals: "1000 * digit_val (digit_chr y1) + 100 * digit_val (digit_chr y2)
               + 10 * digit_val (digit_chr y3) + digit_val (digit_chr y4)
             = 1000 * y1 + 100 * y2 + 10 * y3 + y4"
    by (simp add: digit_chr_def digit_val_def)
  show ?thesis
    unfolding strptime_Ymd_def list.map
    apply (subst if_not_P)
     apply (simp only: not_not ascii)
    apply (simp only: list.case if_P [OF digits] vals)
    done
qed

lemma strptime_Ymd_digits:
  assumes "y1 < 10" "y2 < 10" "y3 < 10" "y4 < 10" "m1 < 10" "m2 < 10" "d1 < 10" "d2 < 10"
  shows "strptime_Ymd (map digit_chr [y1, y2, y3, y4, m1, m2, d1, d2]) =
           make_date (1000 * y1 + 100 * y2 + 10 * y3 + y4) (10 * m1 + m2) (10 * d1 + d2)"
proof -
  let ?r = "[digit_chr d1, digit_chr d2]"
  let ?Y = "1000 * y1 + 100 * y2 + 10 * y3 + y4"
  note unfold = strptime_unfold [OF assms]
  have three: "match_day [digit_chr m2, digit_chr d1, digit_chr d2] = None
       \<or> (\<exists>d x r. match_day [digit_chr m2, digit_chr d1, digit_chr d2] = Some (d, x # r))"
    using match_day_three [OF assms(6) assms(7)] .
  note two = match_day_two [OF assms(7) assms(8)]
  note cands = month_candidates_digits [OF assms(5) assms(6), of ?r]
  have dim: "days_in_month ?Y (10 * m1 + m2) \<le> 31"
    by (rule days_in_month_bounds)
  have long_fails: "first_match [(m1, digit_chr m2 # ?r)] = None
      \<or> (\<exists>d x r. first_match [(m1, digit_chr m2 # ?r)] = Some (m1, d, x # r))"
    using three by auto
  consider (month_ok) "(m1 = 1 \<and> m2 \<le> 2) \<or> (m1 = 0 \<and> 1 \<le> m2)"
    | (month_zero) "m1 = 0" "m2 = 0"
    | (month_big) "13 \<le> 10 * m1 + m2"
    using assms(5,6) by linarith
  then show ?thesis
  proof cases
    case month_ok
    then have m: "1 \<le> 10 * m1 + m2" "10 * m1 + m2 \<le> 12" using assms(6) by auto
    from month_ok have c: "month_candidates (digit_chr m1 # digit_chr m2 # ?r)
        = (10 * m1 + m2, ?r) # (if 1 \<le> m1 then [(m1, digit_chr m2 # ?r)] else [])"
      unfolding cands by auto
    consider (day_ok) "1 \<le> 10 * d1 + d2" "10 * d1 + d2 \<le> 31"
      | (day_long) "32 \<le> 10 * d1 + d2"
      | (day_zero) "d1 = 0" "d2 = 0"
      using assms(7,8) by linarith
    then show ?thesis
    proof cases
      case day_ok
      then have "first_match (month_candidates (digit_chr m1 # digit_chr m2 # ?r))
          = Some (10 * m1 + m2, 10 * d1 + d2, [])"
        unfolding c using two by simp
      then show ?thesis unfolding unfold by simp
    next
      case day_long
      then have "1 \<le> d1" using assms(7,8) by linarith
      with day_long have "first_match (month_candidates (digit_chr m1 # digit_chr m2 # ?r))
          = Some (10 * m1 + m2, d1, [digit_chr d2])"
        unfolding c using two by simp
      moreover have "make_date ?Y (10 * m1 + m2) (10 * d1 + d2) = Inl ValueError"
        using day_long dim by (simp add: make_date_def)
      ultimately show ?thesis unfolding unfold by simp
    next
      case day_zero
      then have none: "match_day ?r = None" using two by simp
      have "first_match (month_candidates (digit_chr m1 # digit_chr m2 # ?r)) = None
          \<or> (\<exists>d x r. first_match (month_candidates (digit_chr m1 # digit_chr m2 # ?r))
                = Some (m1, d, x # r))"
        unfolding c using none long_fails by auto
      moreover have "make_date ?Y (10 * m1 + m2) (10 * d1 + d2) = Inl ValueError"
        using day_zero by (simp add: make_date_def)
      ultimately show ?thesis unfolding unfold by auto
    qed
  next
    case month_zero
    then have "month_candidates (digit_chr m1 # digit_chr m2 # ?r) = []"
      unfolding cands by simp
    moreover have "make_date ?Y (10 * m1 + m2) (10 * d1 + d2) = Inl ValueError"
      using month_zero by (simp add: make_date_def)
    ultimately show ?thesis unfolding unfold by simp
  next
    case month_big
    then have "1 \<le> m1" "\<not> (m1 = 1 \<and> m2 \<le> 2)" "\<not> (m1 = 0 \<and> 1 \<le> m2)"
      using assms(5,6) by linarith+
    then have "month_candidates (digit_chr m1 # digit_chr m2 # ?r) = [(m1, digit_chr m2 # ?r)]"
      unfolding cands by simp
    moreover have "make_date ?Y (10 * m1 + m2) (10 * d1 + d2) = Inl ValueError"
      using month_big by (simp add: make_date_def)
    ultimately show ?thesis unfolding unfold using long_fails by auto
  qed
qed

section \<open>Properties of the pipeline: early returns\<close>

lemma fetch_pageviews_fst:
  "fst (fetch_pageviews net t s e w) = fst (fetch_pageviews net t s e w')"
  by (simp add: fetch_pageviews_def Let_def split: sum.splits option.splits)

text \<open>
  C7 as stated fails: both titles are extracted before the test of line 71, so when one
  URL has no title and \<open>urlparse\<close> raises on the other (here ValueError on \<open>http://[\<close>),
  the exception leaves \<open>analyze_wiki_pages\<close> and no bad-input message is printed.
\<close>

theorem analyze_wiki_pages_bad_url_raises:
  "extract_page_title (ascii ''https://en.wikipedia.org/Foo'') = Inr None
   \<and> analyze_wiki_pages route lcg (ascii ''https://en.wikipedia.org/Foo'') (ascii ''http://['')
        jan1 jan31 world1 = (Inl ValueError, world1)"
proof -
  have a: "extract_page_title (ascii ''https://en.wikipedia.org/Foo'') = Inr None"
    by code_simp
  have b: "extract_page_title (ascii ''http://['') = Inl ValueError"
    by code_simp
  show ?thesis
    by (simp add: analyze_wiki_pages_def a b)
qed

text \<open>
  C7, amended. When title extraction returns for both URLs and yields \<open>None\<close> (or the empty
  string) for at least one of them, the pipeline prints the bad-input message and returns
  \<open>None\<close>; the requests sent are unchanged, so neither page is fetched.
\<close>

theorem analyze_wiki_pages_bad_input:
  assumes "extract_page_title url1 = Inr p1"
    and "extract_page_title url2 = Inr p2"
    and "\<not> truthy p1 \<or> \<not> truthy p2"
  shows "analyze_wiki_pages net gen url1 url2 s e w
           = (Inr None, w\<lparr>stdout := stdout w @ [bad_input_message]\<rparr>)"
  using assms by (auto simp: analyze_wiki_pages_def print_def)

theorem analyze_wiki_pages_bad_input_witness:
  "extract_page_title (ascii ''https://en.wikipedia.org/Foo'') = Inr None
   \<and> extract_page_title (ascii ''https://en.wikipedia.org/wiki/Bar'') = Inr (Some (ascii ''Bar''))
   \<and> \<not> truthy None
   \<and> analyze_wiki_pages route lcg (ascii ''https://en.wikipedia.org/Foo'')
        (ascii ''https://en.wikipedia.org/wiki/Bar'') jan1 jan31 world1
      = (Inr None, world1\<lparr>stdout := stdout world1 @ [bad_input_message]\<rparr>)"
proof -
  have a: "extract_page_title (ascii ''https://en.wikipedia.org/Foo'') = Inr None"
    by code_simp
  have b: "extract_page_title (ascii ''https://en.wikipedia.org/wiki/Bar'') = Inr (Some (ascii ''Bar''))"
    by code_simp
  have c: "\<not> truthy None \<or> \<not> truthy (Some (ascii ''Bar''))"
    by (simp add: truthy_def)
  from analyze_wiki_pages_bad_input [OF a b c] a b show ?thesis
    by (simp add: truthy_def)
qed

text \<open>
  C8 as stated fails: the fetches run one after the other before the test of line 79, so
  when the first fetch yields an empty frame (status 404) and the second raises (here
  KeyError on an item without timestamp), the exception leaves \<open>analyze_wiki_pages\<close>.
\<close>

theorem analyze_wiki_pages_no_data_raises:
  "extract_page_title (ascii ''https://en.wikipedia.org/wiki/A'') = Inr (Some (ascii ''A''))
   \<and> extract_page_title (ascii ''https://en.wikipedia.org/wiki/B'') = Inr (Some (ascii ''B''))
   \<and> fst (fetch_pageviews route (ascii ''A'') jan1 jan31 world1) = Inr []
   \<and> fst (analyze_wiki_pages route lcg (ascii ''https://en.wikipedia.org/wiki/A'')
             (ascii ''https://en.wikipedia.org/wiki/B'') jan1 jan31 world1) = Inl KeyError"
proof -
  have a: "extract_page_title (ascii ''https://en.wikipedia.org/wiki/A'') = Inr (Some (ascii ''A''))"
    by code_simp
  have b: "extract_page_title (ascii ''https://en.wikipedia.org/wiki/B'') = Inr (Some (ascii ''B''))"
    by code_simp
  have ne: "ascii ''A'' \<noteq> []" "ascii ''B'' \<noteq> []"
    by (simp_all add: ascii_def)
  have f1: "fst (fetch_pageviews route (ascii ''A'') jan1 jan31 w) = Inr []" for w :: "nat world"
    by (simp add: fetch_pageviews_def route_def the_request_def Let_def)
  have other: "the_request (ascii ''B'') jan1 jan31 \<noteq> the_request (ascii ''A'') jan1 jan31"
    by (simp add: the_request_def api_url_def ascii_def)
  have bad: "records_of [JObj no_timestamp] = Inl KeyError"
    by code_simp
  have f2: "fst (fetch_pageviews route (ascii ''B'') jan1 jan31 w) = Inl KeyError" for w :: "nat world"
    using other bad
    by (simp add: fetch_pageviews_def route_def the_request_def [symmetric] Let_def
          get_items_def iterate_def and_then_def)
  obtain r1 w2 where g1: "fetch_pageviews route (ascii ''A'') jan1 jan31
      (print (fetching_message (ascii ''A'') (ascii ''B'')) world1) = (r1, w2)"
    by (cases "fetch_pageviews route (ascii ''A'') jan1 jan31
      (print (fetching_message (ascii ''A'') (ascii ''B'')) world1)")
  obtain r2 w3 where g2: "fetch_pageviews route (ascii ''B'') jan1 jan31 w2 = (r2, w3)"
    by (cases "fetch_pageviews route (ascii ''B'') jan1 jan31 w2")
  have "r1 = Inr []" "r2 = Inl KeyError"
    using g1 g2 f1 [of "print (fetching_message (ascii ''A'') (ascii ''B'')) world1"] f2 [of w2]
    by simp_all
  with g1 g2
  have "fst (compare_pages route lcg (ascii ''A'') (ascii ''B'') jan1 jan31 world1) = Inl KeyError"
    by (simp add: compare_pages_def Let_def)
  then show ?thesis
    using a b f1 ne by (simp add: analyze_wiki_pages_def truthy_def)
qed

text \<open>
  C8, amended. When both titles are extracted, both fetches return and at least one of the
  two frames is empty, the pipeline returns \<open>None\<close> without raising, and the last line it
  prints is the no-data message, which differs from the bad-input message.
\<close>

theorem analyze_wiki_pages_no_data:
  assumes "extract_page_title url1 = Inr (Some t1)"
    and "extract_page_title url2 = Inr (Some t2)"
    and "t1 \<noteq> []" and "t2 \<noteq> []"
    and "fst (fetch_pageviews net t1 s e wa) = Inr df1"
    and "fst (fetch_pageviews net t2 s e wb) = Inr df2"
    and "df1 = [] \<or> df2 = []"
  shows "fst (analyze_wiki_pages net gen url1 url2 s e w) = Inr None
       \<and> last (stdout (snd (analyze_wiki_pages net gen url1 url2 s e w))) = no_data_message
       \<and> no_data_message \<noteq> bad_input_message"
proof -
  let ?w1 = "print (fetching_message t1 t2) w"
  obtain r1 w2 where f1: "fetch_pageviews net t1 s e ?w1 = (r1, w2)"
    by (cases "fetch_pageviews net t1 s e ?w1")
  obtain r2 w3 where f2: "fetch_pageviews net t2 s e w2 = (r2, w3)"
    by (cases "fetch_pageviews net t2 s e w2")
  have r1: "r1 = Inr df1"
    using f1 assms(5) fetch_pageviews_fst [of net t1 s e ?w1 wa] by simp
  have r2: "r2 = Inr df2"
    using f2 assms(6) fetch_pageviews_fst [of net t2 s e w2 wb] by simp
  have "compare_pages net gen t1 t2 s e w = (Inr None, print no_data_message w3)"
    using f1 f2 r1 r2 assms(7) by (simp add: compare_pages_def Let_def)
  then have "analyze_wiki_pages net gen url1 url2 s e w = (Inr None, print no_data_message w3)"
    using assms(1-4) by (simp add: analyze_wiki_pages_def truthy_def)
  moreover have "no_data_message \<noteq> bad_input_message"
    by (simp add: no_data_message_def bad_input_message_def ascii_def)
  ultimately show ?thesis
    by (simp add: print_def)
qed

theorem analyze_wiki_pages_no_data_witness:
  "extract_page_title (ascii ''https://en.wikipedia.org/wiki/A'') = Inr (Some (ascii ''A''))
   \<and> extract_page_title (ascii ''https://en.wikipedia.org/wiki/Foo_Bar'') = Inr (Some (ascii ''Foo_Bar''))
   \<and> fst (fetch_pageviews (serve 404 None) (ascii ''A'') jan1 jan31 world1) = Inr []
   \<and> fst (fetch_pageviews (serve 404 None) (ascii ''Foo_Bar'') jan1 jan31 world1) = Inr []
   \<and> fst (analyze_wiki_pages (serve 404 None) lcg (ascii ''https://en.wikipedia.org/wiki/A'')
             (ascii ''https://en.wikipedia.org/wiki/Foo_Bar'') jan1 jan31 world1) = Inr None
   \<and> last (stdout (snd (analyze_wiki_pages (serve 404 None) lcg (ascii ''https://en.wikipedia.org/wiki/A'')
             (ascii ''https://en.wikipedia.org/wiki/Foo_Bar'') jan1 jan31 world1))) = no_data_message"
proof -
  have a: "extract_page_title (ascii ''https://en.wikipedia.org/wiki/A'') = Inr (Some (ascii ''A''))"
    by code_simp
  have b: "extract_page_title (ascii ''https://en.wikipedia.org/wiki/Foo_Bar'') = Inr (Some (ascii ''Foo_Bar''))"
    by code_simp
  have ne: "ascii ''A'' \<noteq> []" "ascii ''Foo_Bar'' \<noteq> []"
    by (simp_all add: ascii_def)
  have f1: "fst (fetch_pageviews (serve 404 None) (ascii ''A'') jan1 jan31 world1) = Inr []"
    by (simp add: fetch_pageviews_def serve_def Let_def)
  have f2: "fst (fetch_pageviews (serve 404 None) (ascii ''Foo_Bar'') jan1 jan31 world1) = Inr []"
    by (simp add: fetch_pageviews_def serve_def Let_def)
  have e: "[] = ([] :: pageview list) \<or> [] = ([] :: pageview list)"
    by simp
  from analyze_wiki_pages_no_data [OF a b ne f1 f2 e, of lcg world1] a b f1 f2
  show ?thesis by simp
qed

section \<open>Properties of the merge\<close>





lemma merge_outer_row:
  assumes "row \<in> set (merge_outer df1 df2)"
  shows "(\<exists>l \<in> set df1. row_date row = date l \<and> views_1 row = Some (views l)
            \<and> ((views_2 row = None \<and> date l \<notin> date ` set df2)
               \<or> (\<exists>r \<in> set df2. date r = date l \<and> views_2 row = Some (views r))))
       \<or> (\<exists>r \<in> set df2. row_date row = date r \<and> date r \<notin> date ` set df1
            \<and> views_1 row = None \<and> views_2 row = Some (views r))"
proof -
  from assms consider
    (left) l where "l \<in> set df1" "row \<in> set (case filter (\<lambda>r. date r = date l) df2 of
         [] \<Rightarrow> [\<lparr>row_date = date l, views_1 = Some (views l), views_2 = None\<rparr>]
       | ms \<Rightarrow> map (\<lambda>r. \<lparr>row_date = date l, views_1 = Some (views l),
                            views_2 = Some (views r)\<rparr>) ms)"
    | (right) r where "r \<in> set df2" "date r \<notin> date ` set df1"
        "row = \<lparr>row_date = date r, views_1 = None, views_2 = Some (views r)\<rparr>"
    unfolding merge_outer_def by auto
  then show ?thesis
  proof cases
    case left
    show ?thesis
    proof (cases "filter (\<lambda>r. date r = date l) df2")
      case Nil
      then have "date l \<notin> date ` set df2"
        by (auto simp: filter_empty_conv)
      with left Nil show ?thesis by auto
    next
      case (Cons m ms)
      with left obtain r where "r \<in> set (m # ms)"
        "row = \<lparr>row_date = date l, views_1 = Some (views l), views_2 = Some (views r)\<rparr>"
        by auto
      moreover have "set (m # ms) = {r \<in> set df2. date r = date l}"
        using Cons by (metis set_filter)
      ultimately have "r \<in> set df2 \<and> date r = date l"
        by auto
      moreover note \<open>row = \<lparr>row_date = date l, views_1 = Some (views l), views_2 = Some (views r)\<rparr>\<close>
      ultimately show ?thesis using left(1) by auto
    qed
  next
    case right
    then show ?thesis by auto
  qed
qed






text \<open>The example of the claim: records of the dates \<open>D1, D2\<close> and of the dates \<open>D2, D3\<close>
  give exactly three rows.\<close>

lemma merge_frames_three_rows:
  fixes D1 D2 D3 :: date
  assumes "D1 < D2" "D2 < D3"
  shows "merge_frames [\<lparr>date = D1, views = a\<rparr>, \<lparr>date = D2, views = b\<rparr>]
                      [\<lparr>date = D2, views = c\<rparr>, \<lparr>date = D3, views = d\<rparr>]
         = [\<lparr>row_date = D1, views_1 = Some a, views_2 = None\<rparr>,
            \<lparr>row_date = D2, views_1 = Some b, views_2 = Some c\<rparr>,
            \<lparr>row_date = D3, views_1 = None, views_2 = Some d\<rparr>]"
proof -
  have "D1 \<noteq> D2" "D2 \<noteq> D3" "D1 \<noteq> D3" "D1 \<le> D2" "D2 \<le> D3" "D1 \<le> D3" "D3 \<noteq> D1" "D3 \<noteq> D2"
    using assms by auto
  then show ?thesis
    by (simp add: merge_frames_def merge_outer_def)
qed

section \<open>Properties of the float64 arithmetic\<close>

text \<open>
  Rounding to 53 bits keeps a value between two bounds that fit the grid it rounds to.
  For a views value below \<open>2\<^sup>5\<^sup>2\<close> this keeps \<open>views * 0.1\<close>, and its sum with the noise,
  strictly below the next integer, so the share is \<open>views div 10\<close> plus the noise. Far
  above \<open>2\<^sup>5\<^sup>3\<close> the grid is coarser than one and the share can be one more.
\<close>

lemma bitlen_le: "k < 2 ^ n \<Longrightarrow> bitlen k \<le> n"
proof (induction n arbitrary: k)
  case 0
  then show ?case by (simp add: bitlen.simps)
next
  case (Suc n)
  show ?case
  proof (cases "k = 0")
    case True
    then show ?thesis by (simp add: bitlen.simps)
  next
    case False
    from Suc.prems have "k div 2 < 2 ^ n" by simp
    then have "bitlen (k div 2) \<le> n" by (rule Suc.IH)
    with False show ?thesis by (subst bitlen.simps) simp
  qed
qed

lemma round53_exact: "k < 2 ^ 53 \<Longrightarrow> round53 k = k"
proof -
  assume "k < 2 ^ 53"
  then have "bitlen k - 53 = 0" using bitlen_le [of k 53] by simp
  then show ?thesis by (simp add: round53_def)
qed

lemma round53_cases:
  "round53 k = (k div 2 ^ (bitlen k - 53)) * 2 ^ (bitlen k - 53)
   \<or> (k mod 2 ^ (bitlen k - 53) \<noteq> 0
      \<and> round53 k = (k div 2 ^ (bitlen k - 53) + 1) * 2 ^ (bitlen k - 53))"
proof -
  define g :: nat where "g = 2 ^ (bitlen k - 53)"
  have g0: "0 < g" by (simp add: g_def)
  have eq: "round53 k =
     (if 2 * (k mod g) < g then (k div g) * g
      else if g < 2 * (k mod g) then (k div g + 1) * g
      else (if even (k div g) then k div g else k div g + 1) * g)"
    by (simp add: round53_def Let_def g_def)
  have "round53 k = (k div g) * g \<or> (k mod g \<noteq> 0 \<and> round53 k = (k div g + 1) * g)"
  proof (cases "k mod g = 0")
    case True
    with g0 show ?thesis unfolding eq by simp
  next
    case False
    then show ?thesis unfolding eq by simp
  qed
  then show ?thesis unfolding g_def .
qed

lemma round53_between:
  assumes "A \<le> K" "K \<le> U" "2 ^ 51 dvd A" "2 ^ 51 dvd U" "K < 2 ^ 104"
  shows "A \<le> round53 K \<and> round53 K \<le> U"
proof -
  define s where "s = bitlen K - 53"
  define g :: nat where "g = 2 ^ s"
  have "s \<le> 51" using bitlen_le [OF assms(5)] by (simp add: s_def)
  then have "g dvd 2 ^ 51" unfolding g_def by (rule le_imp_power_dvd)
  then have "g dvd A" "g dvd U" using assms(3,4) by (auto intro: dvd_trans)
  then obtain a u where A: "A = g * a" and U: "U = g * u" unfolding dvd_def by blast
  have g0: "0 < g" by (simp add: g_def)
  define q where "q = K div g"
  define r where "r = K mod g"
  have K: "K = q * g + r" by (simp add: q_def r_def)
  have r: "r < g" using g0 by (simp add: r_def)
  have aq: "a \<le> q"
    using assms(1) g0 unfolding A q_def by (simp add: less_eq_div_iff_mult_less_eq mult.commute)
  then have lo: "A \<le> q * g" unfolding A by (simp add: mult.commute)
  have hi: "r \<noteq> 0 \<Longrightarrow> (q + 1) * g \<le> U"
  proof -
    assume "r \<noteq> 0"
    then have "q * g < q * g + r" by simp
    also have "\<dots> = K" by (simp add: K)
    also have "K \<le> u * g" using assms(2) unfolding U by (simp add: mult.commute)
    finally have "q < u" by simp
    then have "q + 1 \<le> u" by simp
    then have "(q + 1) * g \<le> u * g" by (rule mult_le_mono1)
    then show ?thesis unfolding U by (simp add: mult.commute)
  qed
  have hi0: "q * g \<le> U" using assms(2) unfolding K by simp
  from round53_cases [of K] show ?thesis
    unfolding s_def [symmetric] g_def [symmetric] q_def [symmetric] r_def [symmetric]
    using lo hi hi0 by auto
qed


lemma round53i_nonneg: "0 \<le> k \<Longrightarrow> round53i k = int (round53 (nat k))"
  using round53_exact [of 0] by (cases "k = 0") (simp_all add: round53i_def sgn_if)

lemma round53i_int: "round53i (int k) = int (round53 k)"
  using round53i_nonneg [of "int k"] by simp

lemma trunc_nonneg: "sgn (int x) * (\<bar>int x\<bar> div 2 ^ 55) = int (x div 2 ^ 55)"
  by (cases "x = 0") (simp_all add: sgn_if zdiv_int)

lemma share_of_nat:
  "share_of (int V) n =
     int (round53 (round53 (round53 V * 3602879701896397) + n * 2 ^ 55) div 2 ^ 55)"
proof -
  have a: "int (round53 V) * 3602879701896397 = int (round53 V * 3602879701896397)"
    by simp
  have b: "int x + int n * 2 ^ 55 = int (x + n * 2 ^ 55)" for x
    by simp
  show ?thesis
    unfolding share_of_def Let_def tenth_def round53i_int a b trunc_nonneg ..
qed

lemma round53_floor:
  assumes "q * 2 ^ 55 \<le> K" "K \<le> (q + 1) * 2 ^ 55 - 2 ^ 51" "q < 2 ^ 49 - 10"
  shows "q * 2 ^ 55 \<le> round53 K" "round53 K \<le> (q + 1) * 2 ^ 55 - 2 ^ 51"
proof -
  have a: "(2::nat) ^ 51 dvd q * 2 ^ 55"
    by (simp add: le_imp_power_dvd)
  have "(q + 1) * 2 ^ 55 - 2 ^ 51 = (2::nat) ^ 51 * (16 * (q + 1) - 1)"
    by (simp add: algebra_simps)
  then have u: "(2::nat) ^ 51 dvd (q + 1) * 2 ^ 55 - 2 ^ 51"
    by simp
  have "(q + 1) * 2 ^ 55 \<le> (2::nat) ^ 49 * 2 ^ 55"
    using assms(3) by simp
  then have k: "K < 2 ^ 104"
    using assms(2) by simp
  from round53_between [OF assms(1) assms(2) a u k]
  show "q * 2 ^ 55 \<le> round53 K" "round53 K \<le> (q + 1) * 2 ^ 55 - 2 ^ 51"
    by simp_all
qed

lemma share_of_floor_nat:
  assumes "V < 2 ^ 52" "n < 10"
  shows "round53 (round53 (round53 V * 3602879701896397) + n * 2 ^ 55) div 2 ^ 55 = V div 10 + n"
proof -
  define q where "q = V div 10"
  have V: "10 * q \<le> V" "V \<le> 10 * q + 9"
    by (simp_all add: q_def)
  have q: "q < 450359962737050"
    using assms(1) V(1) by simp
  have exact: "round53 V = V"
    using assms(1) by (intro round53_exact) simp
  define x1 where "x1 = round53 (V * 3602879701896397)"
  have lo1: "q * 2 ^ 55 \<le> V * 3602879701896397"
    using V(1) by simp
  have hi1: "V * 3602879701896397 \<le> (q + 1) * 2 ^ 55 - 2 ^ 51"
    using V(2) q by simp
  have x1: "q * 2 ^ 55 \<le> x1" "x1 \<le> (q + 1) * 2 ^ 55 - 2 ^ 51"
    unfolding x1_def using round53_floor [OF lo1 hi1] q by simp_all
  define x2 where "x2 = round53 (x1 + n * 2 ^ 55)"
  have lo2: "(q + n) * 2 ^ 55 \<le> x1 + n * 2 ^ 55"
    using x1(1) by (simp add: add_mult_distrib)
  have "(q + 1) * 2 ^ 55 - 2 ^ 51 + n * 2 ^ 55 = (q + n + 1) * 2 ^ 55 - (2::nat) ^ 51"
    by (simp add: add_mult_distrib)
  then have hi2: "x1 + n * 2 ^ 55 \<le> (q + n + 1) * 2 ^ 55 - 2 ^ 51"
    using x1(2) by linarith
  have qn: "q + n < 2 ^ 49 - 10"
    using q assms(2) by simp
  have x2: "(q + n) * 2 ^ 55 \<le> x2" "x2 \<le> (q + n + 1) * 2 ^ 55 - 2 ^ 51"
    unfolding x2_def using round53_floor [OF lo2 hi2 qn] by simp_all
  have "x2 div 2 ^ 55 = q + n"
  proof (rule div_nat_eqI)
    show "2 ^ 55 * (q + n) \<le> x2" using x2(1) by (simp add: mult.commute)
    have "(q + n + 1) * 2 ^ 55 - 2 ^ 51 < (q + n + 1) * (2::nat) ^ 55"
      by simp
    with x2(2) have "x2 < (q + n + 1) * 2 ^ 55" by linarith
    then show "x2 < 2 ^ 55 * Suc (q + n)" by (simp add: mult.commute)
  qed
  then show ?thesis
    unfolding exact x1_def [symmetric] x2_def [symmetric] q_def [symmetric] .
qed

lemma share_of_floor:
  assumes "0 \<le> v" "v < 2 ^ 52" "n < 10"
  shows "share_of v n = v div 10 + int n"
proof -
  have "nat v < 2 ^ 52" using assms by (simp add: nat_less_iff)
  from share_of_floor_nat [OF this assms(3)] share_of_nat [of "nat v" n] assms(1)
  show ?thesis by (simp add: zdiv_int)
qed



lemma bitlen_eq: "2 ^ n \<le> k \<Longrightarrow> k < 2 ^ Suc n \<Longrightarrow> bitlen k = Suc n"
proof (induction n arbitrary: k)
  case 0
  then have "k = 1" by simp
  then show ?case by (simp add: bitlen.simps)
next
  case (Suc n)
  then have "k \<noteq> 0" "2 ^ n \<le> k div 2" "k div 2 < 2 ^ Suc n"
    by auto
  with Suc.IH [of "k div 2"] show ?case
    by (subst bitlen.simps) simp
qed

lemma round53_at:
  assumes "2 ^ (52 + s) \<le> k" "k < 2 ^ (53 + s)"
  shows "round53 k =
     (if 2 * (k mod 2 ^ s) < 2 ^ s then (k div 2 ^ s) * 2 ^ s
      else if 2 ^ s < 2 * (k mod 2 ^ s) then (k div 2 ^ s + 1) * 2 ^ s
      else (if even (k div 2 ^ s) then k div 2 ^ s else k div 2 ^ s + 1) * 2 ^ s)"
proof -
  have "bitlen k = Suc (52 + s)"
    using assms by (intro bitlen_eq) simp_all
  then show ?thesis
    by (simp add: round53_def Let_def)
qed

lemma share_of_large: "share_of 22517998136852435 6 = 2251799813685250"
proof -
  have a: "round53 22517998136852435 = 22517998136852436"
    by (subst round53_at [where s = 2]) simp_all
  have b: "round53 (22517998136852436 * 3602879701896397) = 81129638414606528573401674547200"
    by (subst round53_at [where s = 53]) simp_all
  have c: "round53 (81129638414606528573401674547200 + 6 * 2 ^ 55) = 81129638414606753753383043072000"
    by (subst round53_at [where s = 54]) simp_all
  have "share_of (int 22517998136852435) 6 = 2251799813685250"
    unfolding share_of_nat a b c by simp
  then show ?thesis by simp
qed

lemma share_of_zero: "share_of 0 0 = 0"
  using share_of_floor [of 0 0] by simp

section \<open>Properties of the share derivation\<close>

lemma randint_length: "length (fst (randint d n g)) = n"
proof (induction n arbitrary: g)
  case 0
  then show ?case by simp
next
  case (Suc n)
  obtain y g' where dg: "d g = (y, g')" by (cases "d g")
  obtain ys g'' where r: "randint d n g' = (ys, g'')" by (cases "randint d n g'")
  from Suc.IH [of g'] r have "length ys = n" by simp
  with dg r show ?case by simp
qed

lemma randint_append:
  "randint d (m + n) g =
     (case randint d m g of (xs, g') \<Rightarrow>
        (case randint d n g' of (ys, g'') \<Rightarrow> (xs @ ys, g'')))"
proof (induction m arbitrary: g)
  case 0
  then show ?case by (cases "randint d n g") simp
next
  case (Suc m)
  obtain y g1 where dg: "d g = (y, g1)" by (cases "d g")
  obtain xs g2 where r1: "randint d m g1 = (xs, g2)" by (cases "randint d m g1")
  obtain ys g3 where r2: "randint d n g2 = (ys, g3)" by (cases "randint d n g2")
  from Suc.IH [of g1] r1 r2 have "randint d (m + n) g1 = (xs @ ys, g3)" by simp
  with dg r1 r2 show ?case by simp
qed

lemma randint_range:
  "\<forall>g. fst (d g) < b \<Longrightarrow> x \<in> set (fst (randint d n g)) \<Longrightarrow> x < b"
proof (induction n arbitrary: g)
  case 0
  then show ?case by simp
next
  case (Suc n)
  obtain y g' where dg: "d g = (y, g')" by (cases "d g")
  obtain ys g'' where r: "randint d n g' = (ys, g'')" by (cases "randint d n g'")
  from Suc.prems(2) dg r have "x = y \<or> x \<in> set (fst (randint d n g'))" by auto
  moreover have "y < b" using Suc.prems(1) dg by (metis fst_conv)
  ultimately show ?case using Suc.IH [OF Suc.prems(1)] by auto
qed

lemma those_map_Some: "those (map Some xs) = Some xs"
  by (induction xs) simp_all

lemma those_None: "None \<in> set xs \<Longrightarrow> those xs = None"
  by (induction xs) (auto split: option.splits)

lemma shares_column_present:
  assumes "col = map (\<lambda>v. Some (JInt v)) vs" "\<forall>v \<in> set vs. int64 v"
  shows "shares_column col noise = Inr (map2 share_of vs noise)"
proof -
  have "list_all int_cell col"
    using assms by (simp add: list_all_iff int_cell_def)
  moreover have "map cell_value col = map Some vs"
    using assms(1) by (simp add: cell_value_def)
  ultimately show ?thesis
    by (simp add: shares_column_def those_map_Some)
qed

lemma shares_column_absent:
  assumes "list_all int_cell col" "None \<in> set col"
  shows "shares_column col noise = Inl IntCastingNaNError"
proof -
  have "cell_value None = None"
    by (simp add: cell_value_def)
  with assms(2) have "None \<in> set (map cell_value col)"
    by (metis image_eqI list.set_map)
  then have "those (map cell_value col) = None"
    by (rule those_None)
  with assms(1) show ?thesis
    by (simp add: shares_column_def)
qed

lemma int_cell_Some: "int_cell c \<Longrightarrow> c \<noteq> None \<Longrightarrow> \<exists>v. c = Some (JInt v)"
proof (cases c)
  case None
  assume "c \<noteq> None"
  with None show ?thesis by simp
next
  case (Some j)
  assume "int_cell c"
  with Some show ?thesis by (cases j) (simp_all add: int_cell_def)
qed

lemma shares_column_returns:
  assumes "list_all int_cell col" "None \<notin> set col"
  shows "\<exists>s. shares_column col noise = Inr s"
proof -
  from assms have "\<exists>vs. map cell_value col = map Some vs"
  proof (induction col)
    case Nil
    then show ?case by simp
  next
    case (Cons c col)
    then obtain vs where vs: "map cell_value col = map Some vs" by auto
    from Cons.prems(1) have "int_cell c" by simp
    moreover from Cons.prems(2) have "c \<noteq> None" by (metis list.set_intros(1))
    ultimately obtain v where "c = Some (JInt v)"
      using int_cell_Some by blast
    then have "map cell_value (c # col) = map Some (v # vs)"
      using vs by (simp add: cell_value_def)
    then show ?case by blast
  qed
  then obtain vs where "map cell_value col = map Some vs" ..
  with assms(1) show ?thesis
    by (simp add: shares_column_def those_map_Some)
qed

lemma simulate_shares_unfold:
  assumes "randint (draw gen) (length df) (seed gen 42) = (n1, g1)"
    and "randint (draw gen) (length df) g1 = (n2, g2)"
  shows "simulate_shares gen df w =
     (case shares_column (map views_1 df) n1 of
        Inl e \<Rightarrow> (Inl e, w\<lparr>rng := g1\<rparr>)
      | Inr s1 \<Rightarrow>
          (case shares_column (map views_2 df) n2 of
             Inl e \<Rightarrow> (Inl e, w\<lparr>rng := g2\<rparr>)
           | Inr s2 \<Rightarrow>
               (Inr (map (\<lambda>(r, a, b). \<lparr>row_date = row_date r, views_1 = views_1 r,
                                         views_2 = views_2 r, shares_1 = a, shares_2 = b\<rparr>)
                         (zip df (zip s1 s2))), w\<lparr>rng := g2\<rparr>)))"
  using assms by (simp add: simulate_shares_def Let_def split: sum.splits)

lemma lcg_draws:
  "randint (draw lcg) 1 (seed lcg 42) = ([6], 3224)"
  "randint (draw lcg) 1 3224 = ([0], 45263)"
  "randint (draw lcg) 2 (seed lcg 42) = ([6, 0], 45263)"
  by (simp_all add: lcg_def numeral_2_eq_2)

lemma lcg_range: "\<forall>g. fst (draw lcg g) < 10"
  by (simp add: lcg_def)

text \<open>
  C1 as stated fails: the share is computed in float64 and truncated. For a views value of
  22517998136852435 and the draw 6, \<open>views * 0.1 + 6\<close> rounds up to the next integer and the
  share is 2251799813685250, one more than \<open>floor(0.1 * views) + 6\<close>.
\<close>

theorem simulate_shares_large_views:
  "fst (randint (draw lcg) 2 (seed lcg 42)) = [6, 0]
   \<and> fst (simulate_shares lcg huge_table world1)
       = Inr [\<lparr>row_date = (2022, 1, 1), views_1 = Some (JInt 22517998136852435),
               views_2 = Some (JInt 0), shares_1 = 2251799813685250, shares_2 = 0\<rparr>]
   \<and> (22517998136852435 :: int) div 10 + 6 = 2251799813685249"
proof -
  have len: "length huge_table = 1"
    by (simp add: huge_table_def)
  have c1: "shares_column (map views_1 huge_table) [6] = Inr [2251799813685250]"
    using shares_column_present [of "map views_1 huge_table" "[22517998136852435]" "[6]"]
    by (simp add: huge_table_def int64_def share_of_large)
  have c2: "shares_column (map views_2 huge_table) [0] = Inr [0]"
    using shares_column_present [of "map views_2 huge_table" "[0]" "[0]"]
    by (simp add: huge_table_def int64_def share_of_zero)
  have "fst (simulate_shares lcg huge_table world1)
       = Inr [\<lparr>row_date = (2022, 1, 1), views_1 = Some (JInt 22517998136852435),
               views_2 = Some (JInt 0), shares_1 = 2251799813685250, shares_2 = 0\<rparr>]"
    using simulate_shares_unfold [of lcg huge_table "[6]" 3224 "[0]" 45263 world1]
      lcg_draws(1,2) c1 c2
    by (simp add: len) (simp add: huge_table_def)
  then show ?thesis
    by (simp add: lcg_draws(3))
qed

text \<open>
  C1, amended. For every merged table of \<open>N\<close> rows whose views values are all present and
  are integers from 0 to below \<open>2\<^sup>5\<^sup>2\<close>, and a generator whose draws lie in \<open>[0,10)\<close>: the
  derivation returns the table with two share columns; the noise is the sequence of the
  first \<open>2N\<close> draws after seeding with 42, whatever the state of the generator was before;
  at row \<open>i\<close> the share of page A is \<open>views div 10\<close> plus draw \<open>i\<close>, the share of page B is
  \<open>views div 10\<close> plus draw \<open>N + i\<close>; dates and views are unchanged.
\<close>

theorem simulate_shares_formula:
  assumes v1: "map views_1 df = map (\<lambda>a. Some (JInt a)) as"
    and v2: "map views_2 df = map (\<lambda>b. Some (JInt b)) bs"
    and r1: "\<forall>a \<in> set as. 0 \<le> a \<and> a < 2 ^ 52"
    and r2: "\<forall>b \<in> set bs. 0 \<le> b \<and> b < 2 ^ 52"
    and d: "\<forall>g. fst (draw gen g) < 10"
  shows "\<exists>table noise g'.
           randint (draw gen) (2 * length df) (seed gen 42) = (noise, g')
         \<and> simulate_shares gen df w = (Inr table, w\<lparr>rng := g'\<rparr>)
         \<and> length table = length df
         \<and> (\<forall>i < length df.
               row_date (table ! i) = row_date (df ! i)
             \<and> views_1 (table ! i) = Some (JInt (as ! i))
             \<and> views_2 (table ! i) = Some (JInt (bs ! i))
             \<and> shares_1 (table ! i) = as ! i div 10 + int (noise ! i)
             \<and> shares_2 (table ! i) = bs ! i div 10 + int (noise ! (length df + i))
             \<and> noise ! i < 10 \<and> noise ! (length df + i) < 10)"
proof -
  define N where "N = length df"
  have la: "length as = N" and lb: "length bs = N"
    using arg_cong [OF v1, of length] arg_cong [OF v2, of length] by (simp_all add: N_def)
  obtain n1 g1 where n1: "randint (draw gen) N (seed gen 42) = (n1, g1)"
    by (cases "randint (draw gen) N (seed gen 42)")
  obtain n2 g2 where n2: "randint (draw gen) N g1 = (n2, g2)"
    by (cases "randint (draw gen) N g1")
  have ln1: "length n1 = N" using randint_length [of "draw gen" N "seed gen 42"] n1 by simp
  have ln2: "length n2 = N" using randint_length [of "draw gen" N g1] n2 by simp
  have noise: "randint (draw gen) (2 * N) (seed gen 42) = (n1 @ n2, g2)"
    using randint_append [of "draw gen" N N "seed gen 42"] n1 n2 by (simp add: mult_2)
  have small1: "x \<in> set n1 \<Longrightarrow> x < 10" for x
    using randint_range [OF d, of x N "seed gen 42"] n1 by simp
  have small2: "x \<in> set n2 \<Longrightarrow> x < 10" for x
    using randint_range [OF d, of x N g1] n2 by simp
  have i1: "\<forall>v \<in> set as. int64 v" using r1 by (auto simp: int64_def)
  have i2: "\<forall>v \<in> set bs. int64 v" using r2 by (auto simp: int64_def)
  define s1 where "s1 = map2 share_of as n1"
  define s2 where "s2 = map2 share_of bs n2"
  have c1: "shares_column (map views_1 df) n1 = Inr s1"
    unfolding s1_def by (rule shares_column_present [OF v1 i1])
  have c2: "shares_column (map views_2 df) n2 = Inr s2"
    unfolding s2_def by (rule shares_column_present [OF v2 i2])
  define table where "table = map (\<lambda>(r, a, b). \<lparr>row_date = row_date r, views_1 = views_1 r,
       views_2 = views_2 r, shares_1 = a, shares_2 = b\<rparr>) (zip df (zip s1 s2))"
  have run: "simulate_shares gen df w = (Inr table, w\<lparr>rng := g2\<rparr>)"
    using simulate_shares_unfold [of gen df n1 g1 n2 g2 w] n1 n2 c1 c2
    by (simp add: N_def table_def)
  have ls1: "length s1 = N" and ls2: "length s2 = N"
    by (simp_all add: s1_def s2_def la lb ln1 ln2)
  have lt: "length table = N"
    by (simp add: table_def ls1 ls2 N_def)
  have rows: "row_date (table ! i) = row_date (df ! i)
             \<and> views_1 (table ! i) = Some (JInt (as ! i))
             \<and> views_2 (table ! i) = Some (JInt (bs ! i))
             \<and> shares_1 (table ! i) = as ! i div 10 + int ((n1 @ n2) ! i)
             \<and> shares_2 (table ! i) = bs ! i div 10 + int ((n1 @ n2) ! (N + i))
             \<and> (n1 @ n2) ! i < 10 \<and> (n1 @ n2) ! (N + i) < 10" if i: "i < N" for i
  proof -
    have t: "table ! i = \<lparr>row_date = row_date (df ! i), views_1 = views_1 (df ! i),
       views_2 = views_2 (df ! i), shares_1 = s1 ! i, shares_2 = s2 ! i\<rparr>"
      using i by (simp add: table_def ls1 ls2 N_def)
    have a1: "views_1 (df ! i) = Some (JInt (as ! i))"
      using arg_cong [OF v1, of "\<lambda>l. l ! i"] i by (simp add: N_def la)
    have a2: "views_2 (df ! i) = Some (JInt (bs ! i))"
      using arg_cong [OF v2, of "\<lambda>l. l ! i"] i by (simp add: N_def lb)
    have x1: "n1 ! i < 10" using small1 [of "n1 ! i"] i ln1 by simp
    have x2: "n2 ! i < 10" using small2 [of "n2 ! i"] i ln2 by simp
    have b1: "0 \<le> as ! i" "as ! i < 2 ^ 52" using r1 i la by (simp_all add: Ball_def)
    have b2: "0 \<le> bs ! i" "bs ! i < 2 ^ 52" using r2 i lb by (simp_all add: Ball_def)
    have e1: "s1 ! i = as ! i div 10 + int (n1 ! i)"
      using i by (simp add: s1_def la ln1 share_of_floor [OF b1 x1])
    have e2: "s2 ! i = bs ! i div 10 + int (n2 ! i)"
      using i by (simp add: s2_def lb ln2 share_of_floor [OF b2 x2])
    have m1: "(n1 @ n2) ! i = n1 ! i" using i ln1 by (simp add: nth_append)
    have m2: "(n1 @ n2) ! (N + i) = n2 ! i" using ln1 by (simp add: nth_append)
    show ?thesis
      unfolding t m1 m2 using a1 a2 e1 e2 x1 x2 by simp
  qed
  show ?thesis
    using noise run lt rows unfolding N_def [symmetric] by blast
qed

theorem simulate_shares_formula_witness:
  "\<exists>table noise g'.
      randint (draw lcg) (2 * length small_table) (seed lcg 42) = (noise, g')
    \<and> simulate_shares lcg small_table world1 = (Inr table, world1\<lparr>rng := g'\<rparr>)
    \<and> noise = [6, 0]
    \<and> shares_1 (table ! 0) = 18 \<and> shares_2 (table ! 0) = 4"
proof -
  have v1: "map views_1 small_table = map (\<lambda>a. Some (JInt a)) [120]"
    and v2: "map views_2 small_table = map (\<lambda>b. Some (JInt b)) [47]"
    by (simp_all add: small_table_def)
  have r1: "\<forall>a \<in> set [120 :: int]. 0 \<le> a \<and> a < 2 ^ 52"
    and r2: "\<forall>b \<in> set [47 :: int]. 0 \<le> b \<and> b < 2 ^ 52"
    by simp_all
  have len: "length small_table = 1"
    by (simp add: small_table_def)
  from simulate_shares_formula [OF v1 v2 r1 r2 lcg_range, of world1]
  obtain table noise g' where
    n: "randint (draw lcg) (2 * length small_table) (seed lcg 42) = (noise, g')"
    and run: "simulate_shares lcg small_table world1 = (Inr table, world1\<lparr>rng := g'\<rparr>)"
    and rows: "\<forall>i < length small_table.
        shares_1 (table ! i) = [120] ! i div 10 + int (noise ! i)
      \<and> shares_2 (table ! i) = [47] ! i div 10 + int (noise ! (length small_table + i))"
    by blast
  from n have noise: "noise = [6, 0]"
    by (simp add: len lcg_draws(3))
  from rows have "shares_1 (table ! 0) = 18 \<and> shares_2 (table ! 0) = 4"
    by (simp add: len noise)
  with n run noise show ?thesis by blast
qed

section \<open>Properties of the pipeline: frames of different dates\<close>

lemma int_frame_cells: "int_frame df \<Longrightarrow> r \<in> set df \<Longrightarrow> int_cell (Some (views r))"
  by (auto simp: int_frame_def int_cell_def list_all_iff split: json.splits)

lemma merge_frames_int_cells:
  assumes "int_frame df1" "int_frame df2"
  shows "list_all int_cell (map views_1 (merge_frames df1 df2))
       \<and> list_all int_cell (map views_2 (merge_frames df1 df2))"
proof -
  have none: "int_cell None" by (simp add: int_cell_def)
  have "int_cell (views_1 row) \<and> int_cell (views_2 row)" if "row \<in> set (merge_outer df1 df2)" for row
    using merge_outer_row [OF that] int_frame_cells [OF assms(1)] int_frame_cells [OF assms(2)] none
    by auto
  then show ?thesis
    by (simp add: merge_frames_def list_all_iff)
qed

lemma merge_outer_left_alone:
  assumes "l \<in> set df1" "date l \<notin> date ` set df2"
  shows "\<lparr>row_date = date l, views_1 = Some (views l), views_2 = None\<rparr> \<in> set (merge_outer df1 df2)"
proof -
  have "\<forall>r \<in> set df2. date r \<noteq> date l"
    using assms(2) by (metis imageI)
  then have "filter (\<lambda>r. date r = date l) df2 = []"
    by (simp add: filter_empty_conv)
  then show ?thesis
    using assms(1) unfolding merge_outer_def by force
qed

lemma merge_outer_right_alone:
  assumes "r \<in> set df2" "date r \<notin> date ` set df1"
  shows "\<lparr>row_date = date r, views_1 = None, views_2 = Some (views r)\<rparr> \<in> set (merge_outer df1 df2)"
  using assms unfolding merge_outer_def by force

lemma merge_frames_absent:
  assumes "date ` set df1 \<noteq> date ` set df2"
  shows "\<exists>row \<in> set (merge_frames df1 df2). views_1 row = None \<or> views_2 row = None"
proof -
  from assms consider
    (left) l where "l \<in> set df1" "date l \<notin> date ` set df2"
    | (right) r where "r \<in> set df2" "date r \<notin> date ` set df1"
    by blast
  then show ?thesis
  proof cases
    case left
    from merge_outer_left_alone [OF left] show ?thesis
      by (force simp: merge_frames_def)
  next
    case right
    from merge_outer_right_alone [OF right] show ?thesis
      by (force simp: merge_frames_def)
  qed
qed

lemma simulate_shares_absent:
  assumes "list_all int_cell (map views_1 df)" "list_all int_cell (map views_2 df)"
    and "\<exists>row \<in> set df. views_1 row = None \<or> views_2 row = None"
  shows "fst (simulate_shares gen df w) = Inl IntCastingNaNError"
proof -
  obtain n1 g1 where a: "randint (draw gen) (length df) (seed gen 42) = (n1, g1)"
    by (cases "randint (draw gen) (length df) (seed gen 42)")
  obtain n2 g2 where b: "randint (draw gen) (length df) g1 = (n2, g2)"
    by (cases "randint (draw gen) (length df) g1")
  note u = simulate_shares_unfold [OF a b, of w]
  show ?thesis
  proof (cases "None \<in> set (map views_1 df)")
    case True
    from shares_column_absent [OF assms(1) True, of n1] show ?thesis
      by (simp add: u)
  next
    case False
    from shares_column_returns [OF assms(1) False, of n1]
    obtain s1 where s1: "shares_column (map views_1 df) n1 = Inr s1" by blast
    from assms(3) False have "None \<in> set (map views_2 df)"
      by (metis image_eqI list.set_map)
    from shares_column_absent [OF assms(2) this, of n2] s1 show ?thesis
      by (simp add: u)
  qed
qed

lemma compare_pages_unfold:
  assumes "fst (fetch_pageviews net t1 s e wa) = Inr df1"
    and "fst (fetch_pageviews net t2 s e wb) = Inr df2"
    and "df1 \<noteq> []" "df2 \<noteq> []" "t1 \<noteq> t2"
  shows "\<exists>w3. fst (compare_pages net gen t1 t2 s e w) =
     (case fst (simulate_shares gen (merge_frames df1 df2) w3) of
        Inl err \<Rightarrow> Inl err | Inr df_merged \<Rightarrow> Inr (Some df_merged))"
proof -
  let ?w1 = "print (fetching_message t1 t2) w"
  obtain r1 w2 where f1: "fetch_pageviews net t1 s e ?w1 = (r1, w2)"
    by (cases "fetch_pageviews net t1 s e ?w1")
  obtain r2 w3 where f2: "fetch_pageviews net t2 s e w2 = (r2, w3)"
    by (cases "fetch_pageviews net t2 s e w2")
  have r1: "r1 = Inr df1"
    using f1 assms(1) fetch_pageviews_fst [of net t1 s e ?w1 wa] by simp
  have r2: "r2 = Inr df2"
    using f2 assms(2) fetch_pageviews_fst [of net t2 s e w2 wb] by simp
  obtain r4 w4 where f4: "simulate_shares gen (merge_frames df1 df2) w3 = (r4, w4)"
    by (cases "simulate_shares gen (merge_frames df1 df2) w3")
  have "fst (compare_pages net gen t1 t2 s e w) =
     (case fst (simulate_shares gen (merge_frames df1 df2) w3) of
        Inl err \<Rightarrow> Inl err | Inr df_merged \<Rightarrow> Inr (Some df_merged))"
    using f1 f2 r1 r2 f4 assms(3-5) by (simp add: compare_pages_def Let_def split: sum.splits)
  then show ?thesis ..
qed

lemma analyze_wiki_pages_titles:
  assumes "extract_page_title url1 = Inr (Some t1)"
    and "extract_page_title url2 = Inr (Some t2)"
    and "t1 \<noteq> []" and "t2 \<noteq> []"
  shows "analyze_wiki_pages net gen url1 url2 s e w = compare_pages net gen t1 t2 s e w"
  using assms by (simp add: analyze_wiki_pages_def truthy_def)

text \<open>
  C3. Two non-empty frames of integer views values whose sets of dates differ: the merged
  table has a row with an absent views value, the conversion of line 93 or of line 96
  raises (IntCastingNaNError, a ValueError) and the exception leaves
  \<open>analyze_wiki_pages\<close>. So a merged table is returned only when both frames have the same
  set of dates.
\<close>

theorem analyze_wiki_pages_different_dates:
  assumes "extract_page_title url1 = Inr (Some t1)"
    and "extract_page_title url2 = Inr (Some t2)"
    and "t1 \<noteq> []" and "t2 \<noteq> []"
    and "fst (fetch_pageviews net t1 s e wa) = Inr df1"
    and "fst (fetch_pageviews net t2 s e wb) = Inr df2"
    and "df1 \<noteq> []" and "df2 \<noteq> []"
    and "int_frame df1" and "int_frame df2"
  shows "(date ` set df1 \<noteq> date ` set df2 \<longrightarrow>
            (\<exists>row \<in> set (merge_frames df1 df2). views_1 row = None \<or> views_2 row = None)
          \<and> fst (analyze_wiki_pages net gen url1 url2 s e w) = Inl IntCastingNaNError)
       \<and> (\<forall>table. fst (analyze_wiki_pages net gen url1 url2 s e w) = Inr (Some table) \<longrightarrow>
            date ` set df1 = date ` set df2)"
proof -
  have raises: "(\<exists>row \<in> set (merge_frames df1 df2). views_1 row = None \<or> views_2 row = None)
      \<and> fst (analyze_wiki_pages net gen url1 url2 s e w) = Inl IntCastingNaNError"
    if differ: "date ` set df1 \<noteq> date ` set df2"
  proof -
    have "t1 \<noteq> t2"
    proof
      assume "t1 = t2"
      then have "df1 = df2"
        using assms(5) assms(6) fetch_pageviews_fst [of net t1 s e wa wb] by simp
      with differ show False by simp
    qed
    from compare_pages_unfold [OF assms(5) assms(6) assms(7) assms(8) this, of gen w]
    obtain w3 where run: "fst (compare_pages net gen t1 t2 s e w) =
       (case fst (simulate_shares gen (merge_frames df1 df2) w3) of
          Inl err \<Rightarrow> Inl err | Inr df_merged \<Rightarrow> Inr (Some df_merged))"
      by blast
    note absent = merge_frames_absent [OF differ]
    note cells = merge_frames_int_cells [OF assms(9) assms(10)]
    have "fst (simulate_shares gen (merge_frames df1 df2) w3) = Inl IntCastingNaNError"
      using simulate_shares_absent [OF conjunct1 [OF cells] conjunct2 [OF cells] absent] .
    with run have "fst (compare_pages net gen t1 t2 s e w) = Inl IntCastingNaNError"
      by simp
    with absent show ?thesis
      by (simp add: analyze_wiki_pages_titles [OF assms(1-4)])
  qed
  then show ?thesis
    by (metis Inl_Inr_False)
qed
lemma two_pages_frames:
  "fst (fetch_pageviews two_pages (ascii ''A'') jan1 jan31 w) = Inr frame_a"
  "fst (fetch_pageviews two_pages (ascii ''Foo_Bar'') jan1 jan31 w) = Inr only_jan2"
proof -
  have wf1: "well_formed_item item_jan1 \<lparr>date = (2022, 1, 1), views = JInt 120\<rparr>"
    by code_simp
  have wf2: "well_formed_item item_jan2 \<lparr>date = (2022, 1, 2), views = JInt 95\<rparr>"
    by code_simp
  have a: "records_of [item_jan1, item_jan2] = Inr frame_a"
    unfolding frame_a_def using wf1 wf2 by (intro records_of_well_formed) simp
  have b: "records_of [item_jan2] = Inr only_jan2"
    unfolding only_jan2_def using wf2 by (intro records_of_well_formed) simp
  have other: "the_request (ascii ''Foo_Bar'') jan1 jan31 \<noteq> the_request (ascii ''A'') jan1 jan31"
    by (simp add: the_request_def api_url_def ascii_def)
  show "fst (fetch_pageviews two_pages (ascii ''A'') jan1 jan31 w) = Inr frame_a"
    using a
    by (simp add: fetch_pageviews_def two_pages_def the_request_def Let_def
          get_items_def iterate_def and_then_def)
  show "fst (fetch_pageviews two_pages (ascii ''Foo_Bar'') jan1 jan31 w) = Inr only_jan2"
    using other b
    by (simp add: fetch_pageviews_def two_pages_def the_request_def [symmetric] Let_def
          get_items_def iterate_def and_then_def)
qed

lemma one_day_frame:
  "fst (fetch_pageviews (serve 200 (Some (JObj [(ascii ''items'', JArr [item_jan2])]))) t jan1 jan31 w)
     = Inr only_jan2"
proof -
  have wf2: "well_formed_item item_jan2 \<lparr>date = (2022, 1, 2), views = JInt 95\<rparr>"
    by code_simp
  have b: "records_of [item_jan2] = Inr only_jan2"
    unfolding only_jan2_def using wf2 by (intro records_of_well_formed) simp
  then show ?thesis
    by (simp add: fetch_pageviews_def serve_def Let_def get_items_def iterate_def and_then_def)
qed

lemma simulate_shares_one_day:
  "fst (simulate_shares lcg (merge_frames only_jan2 only_jan2) w) =
     Inr [\<lparr>row_date = (2022, 1, 2), views_1 = Some (JInt 95), views_2 = Some (JInt 95),
           shares_1 = 15, shares_2 = 9\<rparr>]"
proof -
  have m: "merge_frames only_jan2 only_jan2 =
      [\<lparr>row_date = (2022, 1, 2), views_1 = Some (JInt 95), views_2 = Some (JInt 95)\<rparr>]"
    by (simp add: merge_frames_def merge_outer_def only_jan2_def)
  have s: "share_of 95 6 = 15" "share_of 95 0 = 9"
    by (simp_all add: share_of_floor)
  have c: "shares_column [Some (JInt 95)] [n] = Inr [share_of 95 n]" for n
    by (simp add: shares_column_def int_cell_def int64_def cell_value_def)
  have len: "length [\<lparr>row_date = (2022, 1, 2), views_1 = Some (JInt 95), views_2 = Some (JInt 95)\<rparr>] = 1"
    by simp
  note u = simulate_shares_unfold [where gen = lcg and w = w
      and df = "[\<lparr>row_date = (2022, 1, 2), views_1 = Some (JInt 95), views_2 = Some (JInt 95)\<rparr>]",
      unfolded len, OF lcg_draws(1) lcg_draws(2)]
  show ?thesis
    unfolding m u by (simp add: c s)
qed

theorem analyze_wiki_pages_different_dates_witness:
  "extract_page_title (ascii ''https://en.wikipedia.org/wiki/A'') = Inr (Some (ascii ''A''))
   \<and> extract_page_title (ascii ''https://en.wikipedia.org/wiki/Foo_Bar'') = Inr (Some (ascii ''Foo_Bar''))
   \<and> fst (fetch_pageviews two_pages (ascii ''A'') jan1 jan31 world1) = Inr frame_a
   \<and> fst (fetch_pageviews two_pages (ascii ''Foo_Bar'') jan1 jan31 world1) = Inr only_jan2
   \<and> int_frame frame_a \<and> int_frame only_jan2
   \<and> date ` set frame_a \<noteq> date ` set only_jan2
   \<and> fst (analyze_wiki_pages two_pages lcg (ascii ''https://en.wikipedia.org/wiki/A'')
             (ascii ''https://en.wikipedia.org/wiki/Foo_Bar'') jan1 jan31 world1)
       = Inl IntCastingNaNError
   \<and> fst (analyze_wiki_pages (serve 200 (Some (JObj [(ascii ''items'', JArr [item_jan2])]))) lcg
             (ascii ''https://en.wikipedia.org/wiki/A'')
             (ascii ''https://en.wikipedia.org/wiki/Foo_Bar'') jan1 jan31 world1)
       = Inr (Some [\<lparr>row_date = (2022, 1, 2), views_1 = Some (JInt 95), views_2 = Some (JInt 95),
                     shares_1 = 15, shares_2 = 9\<rparr>])
   \<and> date ` set only_jan2 = date ` set only_jan2"
proof -
  have a: "extract_page_title (ascii ''https://en.wikipedia.org/wiki/A'') = Inr (Some (ascii ''A''))"
    by code_simp
  have b: "extract_page_title (ascii ''https://en.wikipedia.org/wiki/Foo_Bar'') = Inr (Some (ascii ''Foo_Bar''))"
    by code_simp
  have ne: "ascii ''A'' \<noteq> []" "ascii ''Foo_Bar'' \<noteq> []"
    by (simp_all add: ascii_def)
  have titles: "ascii ''A'' \<noteq> ascii ''Foo_Bar''"
    by (simp add: ascii_def)
  have full: "frame_a \<noteq> []" "only_jan2 \<noteq> []"
    by (simp_all add: frame_a_def only_jan2_def)
  have ints: "int_frame frame_a" "int_frame only_jan2"
    by (simp_all add: int_frame_def frame_a_def only_jan2_def int64_def)
  have differ: "date ` set frame_a \<noteq> date ` set only_jan2"
    by (simp add: frame_a_def only_jan2_def)
  note fa = two_pages_frames(1) [of world1]
  note fb = two_pages_frames(2) [of world1]
  note fc = one_day_frame [of _ world1]
  from compare_pages_unfold [OF fc fc full(2) full(2) titles, of lcg world1]
    simulate_shares_one_day
  have "fst (compare_pages (serve 200 (Some (JObj [(ascii ''items'', JArr [item_jan2])]))) lcg
           (ascii ''A'') (ascii ''Foo_Bar'') jan1 jan31 world1)
       = Inr (Some [\<lparr>row_date = (2022, 1, 2), views_1 = Some (JInt 95), views_2 = Some (JInt 95),
                     shares_1 = 15, shares_2 = 9\<rparr>])"
    by auto
  then have ok: "fst (analyze_wiki_pages (serve 200 (Some (JObj [(ascii ''items'', JArr [item_jan2])]))) lcg
             (ascii ''https://en.wikipedia.org/wiki/A'')
             (ascii ''https://en.wikipedia.org/wiki/Foo_Bar'') jan1 jan31 world1)
       = Inr (Some [\<lparr>row_date = (2022, 1, 2), views_1 = Some (JInt 95), views_2 = Some (JInt 95),
                     shares_1 = 15, shares_2 = 9\<rparr>])"
    by (simp add: analyze_wiki_pages_titles [OF a b ne])
  from analyze_wiki_pages_different_dates [OF a b ne fa fb full ints, of lcg world1] differ
  have raises: "fst (analyze_wiki_pages two_pages lcg (ascii ''https://en.wikipedia.org/wiki/A'')
             (ascii ''https://en.wikipedia.org/wiki/Foo_Bar'') jan1 jan31 world1)
       = Inl IntCastingNaNError"
    by blast
  from analyze_wiki_pages_different_dates [OF a b ne fc fc full(2) full(2) ints(2) ints(2), of lcg world1] ok
  have same: "date ` set only_jan2 = date ` set only_jan2"
    by blast
  from a b fa fb ints differ raises ok same show ?thesis
    by blast
qed

end
